theory Spec2Isabelle
  imports Complex_Main
begin

section \<open>Values handed to the workflow engine\<close>

text \<open>
  The schema objects are translated into Python dictionaries (\<open>dict[str, Any]\<close>) that are
  passed to the node-creation service. A dictionary is kept as an association list in
  the order the source writes its keys.
\<close>

datatype pyval =
    PNone
  | PInt int
  | PFloat real
  | PStr string
  | PList "pyval list"
  | PDict "(string \<times> pyval) list"

type_synonym pydict = "(string \<times> pyval) list"

datatype error = ValueError string

definition opt_int :: "int option \<Rightarrow> pyval" where
  "opt_int v = (case v of None \<Rightarrow> PNone | Some i \<Rightarrow> PInt i)"

definition opt_float :: "real option \<Rightarrow> pyval" where
  "opt_float v = (case v of None \<Rightarrow> PNone | Some x \<Rightarrow> PFloat x)"

text \<open>The f-string \<open>f"'{s}'"\<close>: the text between two apostrophes.\<close>

definition quoted :: "string \<Rightarrow> string" where
  "quoted s = [CHR 0x27] @ s @ [CHR 0x27]"

section \<open>Trigger nodes (types/node.py, lines 28-88)\<close>

datatype interval_literal = MINUTE | HOUR | DAY | WEEK | MONTH

fun interval_str :: "interval_literal \<Rightarrow> string" where
  "interval_str MINUTE = ''MINUTE''"
| "interval_str HOUR = ''HOUR''"
| "interval_str DAY = ''DAY''"
| "interval_str WEEK = ''WEEK''"
| "interval_str MONTH = ''MONTH''"

record PeriodicTriggerSettings =
  interval :: interval_literal
  minute :: "int option"
  hour :: "int option"
  day_of_week :: "int option"
  day_of_month :: "int option"

record RowsTriggersSettings =
  table_id :: int

text \<open>\<open>model_dump()\<close> of the two settings models: every field, in declaration order.\<close>

definition periodic_model_dump :: "PeriodicTriggerSettings \<Rightarrow> pydict" where
  "periodic_model_dump p =
     [(''interval'', PStr (interval_str (interval p))),
      (''minute'', opt_int (minute p)),
      (''hour'', opt_int (hour p)),
      (''day_of_week'', opt_int (day_of_week p)),
      (''day_of_month'', opt_int (day_of_month p))]"

definition rows_model_dump :: "RowsTriggersSettings \<Rightarrow> pydict" where
  "rows_model_dump r = [(''table_id'', PInt (table_id r))]"

datatype trigger_type = periodic | http_trigger | rows_updated | rows_created | rows_deleted

fun trigger_type_str :: "trigger_type \<Rightarrow> string" where
  "trigger_type_str periodic = ''periodic''"
| "trigger_type_str http_trigger = ''http_trigger''"
| "trigger_type_str rows_updated = ''rows_updated''"
| "trigger_type_str rows_created = ''rows_created''"
| "trigger_type_str rows_deleted = ''rows_deleted''"

record TriggerNodeCreate =
  trigger_ref :: string
  trigger_label :: string
  trigger_type :: trigger_type
  periodic_interval :: "PeriodicTriggerSettings option"
  rows_triggers_settings :: "RowsTriggersSettings option"

text \<open>
  \<open>TriggerNodeCreate.to_orm_service_dict\<close>. A settings object is a pydantic model, which
  is truthy whenever it is not \<open>None\<close>.
\<close>

definition trigger_to_orm_service_dict :: "TriggerNodeCreate \<Rightarrow> pydict" where
  "trigger_to_orm_service_dict self =
     (case (trigger_type self = periodic, periodic_interval self) of
        (True, Some p) \<Rightarrow> periodic_model_dump p
      | _ \<Rightarrow>
        (case (trigger_type self \<in> set [rows_created, rows_updated, rows_deleted],
               rows_triggers_settings self) of
           (True, Some r) \<Rightarrow> rows_model_dump r
         | _ \<Rightarrow> []))"

section \<open>Action and router nodes (types/node.py, lines 99-317)\<close>

text \<open>
  \<open>RouterEdgeCreate\<close>: a branch of a router. \<open>uid\<close> is the private attribute \<open>_uid\<close>, a
  UUID string drawn when the branch object is built; it is part of the input here.
\<close>

record RouterEdgeCreate =
  edge_label :: string
  condition :: string
  uid :: string

definition edge_to_orm_service_dict :: "RouterEdgeCreate \<Rightarrow> pydict" where
  "edge_to_orm_service_dict self = [(''uid'', PStr (uid self)), (''label'', PStr (edge_label self))]"

datatype body_type_literal = plain | html

fun body_type_str :: "body_type_literal \<Rightarrow> string" where
  "body_type_str plain = ''plain''"
| "body_type_str html = ''html''"

datatype output_type_literal = text_output | choice_output

fun output_type_str :: "output_type_literal \<Rightarrow> string" where
  "output_type_str text_output = ''text''"
| "output_type_str choice_output = ''choice''"

text \<open>
  \<open>AnyNodeCreate\<close> is a union discriminated by \<open>type\<close>. The fields every member inherits
  from \<open>NodeBase\<close>, \<open>RefCreate\<close> and \<open>EdgeCreate\<close> are the record; the fields of each member
  are one constructor of \<open>node_config\<close>, in the order the class declares them.
\<close>

datatype node_config =
    Router "RouterEdgeCreate list"
  | SendEmailAction string "string option" "string option" string string body_type_literal
  | CreateRowAction int pydict
  | UpdateRowAction int string pydict
  | DeleteRowAction int string
  | AiAgentNode output_type_literal "string list option" "real option" string

record AnyNodeCreate =
  ref :: string
  label :: string
  previous_node_ref :: string
  router_edge_label :: string
  config :: node_config

fun config_type :: "node_config \<Rightarrow> string" where
  "config_type (Router _) = ''router''"
| "config_type (SendEmailAction _ _ _ _ _ _) = ''smtp_email''"
| "config_type (CreateRowAction _ _) = ''create_row''"
| "config_type (UpdateRowAction _ _ _) = ''update_row''"
| "config_type (DeleteRowAction _ _) = ''delete_row''"
| "config_type (AiAgentNode _ _ _ _) = ''ai_agent''"

definition node_type_str :: "AnyNodeCreate \<Rightarrow> string" where
  "node_type_str node = config_type (config node)"

text \<open>\<open>x or ''\<close> on an optional string.\<close>

definition or_empty :: "string option \<Rightarrow> string" where
  "or_empty v = (case v of None \<Rightarrow> [] | Some s \<Rightarrow> s)"

text \<open>
  \<open>to_orm_service_dict\<close> of each member of the union. The three row actions list
  \<open>RowActionService\<close> first among their bases, so its method is the one they run.
\<close>

fun config_to_orm_service_dict :: "node_config \<Rightarrow> pydict" where
  "config_to_orm_service_dict (Router edges) =
     [(''edges'', PList (map (\<lambda>branch. PDict (edge_to_orm_service_dict branch)) edges))]"
| "config_to_orm_service_dict (SendEmailAction to_emails cc_emails bcc_emails subject body body_type) =
     [(''to_email'', PStr (quoted to_emails)),
      (''cc_email'', PStr (quoted (or_empty cc_emails))),
      (''bcc_email'', PStr (quoted (or_empty bcc_emails))),
      (''subject'', PStr (quoted subject)),
      (''body'', PStr (quoted body)),
      (''body_type'', PStr (quoted (body_type_str body_type)))]"
| "config_to_orm_service_dict (CreateRowAction tid vals) = [(''table_id'', PInt tid)]"
| "config_to_orm_service_dict (UpdateRowAction tid row vals) = [(''table_id'', PInt tid)]"
| "config_to_orm_service_dict (DeleteRowAction tid row) = [(''table_id'', PInt tid)]"
| "config_to_orm_service_dict (AiAgentNode output_type choices temperature prompt) =
     [(''ai_choices'',
         (if output_type = choice_output
          then PList (map PStr (case choices of None \<Rightarrow> [] | Some cs \<Rightarrow> cs))
          else PList [])),
      (''ai_temperature'', opt_float temperature),
      (''ai_prompt'', PStr (quoted prompt)),
      (''ai_output_type'', PStr (output_type_str output_type))]"

definition to_orm_service_dict :: "AnyNodeCreate \<Rightarrow> pydict" where
  "to_orm_service_dict node = config_to_orm_service_dict (config node)"

section \<open>The workflow engine's records\<close>

text \<open>
  The node-creation service (\<open>AutomationNodeService.create_node\<close>) belongs to the host
  application. What this code hands to it is kept as the created node: the node type
  looked up in the registry by its name, the workflow, and the keyword arguments
  \<open>reference_node_id\<close>, \<open>output\<close> (\<open>node_output\<close>), \<open>label\<close> and \<open>service\<close>. The trigger is created
  without \<open>reference_node_id\<close> and \<open>output\<close>, which is \<open>None\<close> here. \<open>orm_id\<close> is the
  primary key the service gives the node.
\<close>

record AutomationNode =
  orm_id :: int
  node_type :: string
  workflow_id :: int
  reference_node_id :: "int option"
  node_output :: "string option"
  node_label :: string
  service :: pydict

record AutomationWorkflow =
  wf_id :: int
  wf_automation_id :: int
  wf_name :: string

text \<open>Every call of a host service, in the order the calls are made.\<close>

datatype service_call =
    CreateWorkflow int AutomationWorkflow
  | CreateNode int AutomationNode

text \<open>
  The keys of \<open>node_mapping\<close> are client strings and ORM integers; in Python a string
  never equals an integer, so the two kinds of key are kept apart.
\<close>

datatype mapping_key = RefKey string | IdKey int

datatype schema_node = TriggerSchema TriggerNodeCreate | NodeSchema AnyNodeCreate

type_synonym node_mapping = "mapping_key \<rightharpoonup> (AutomationNode \<times> schema_node)"

text \<open>
  The \<open>type\<close> of a registered schema node, and its \<open>edges\<close>. Only a router has the
  attribute \<open>edges\<close>, and the source reads it only after testing the type.
\<close>

fun schema_type :: "schema_node \<Rightarrow> string" where
  "schema_type (TriggerSchema t) = trigger_type_str (trigger_type t)"
| "schema_type (NodeSchema n) = node_type_str n"

fun schema_edges :: "schema_node \<Rightarrow> RouterEdgeCreate list" where
  "schema_edges (NodeSchema n) = (case config n of Router edges \<Rightarrow> edges | _ \<Rightarrow> [])"
| "schema_edges (TriggerSchema t) = []"

text \<open>
  \<open>EdgeCreate.to_orm_reference_node\<close> (lines 109-136). \<open>next(..., None)\<close> over the
  generator is the first branch with the label, if there is one.
\<close>

definition to_orm_reference_node :: "AnyNodeCreate \<Rightarrow> node_mapping \<Rightarrow> error + (int \<times> string)" where
  "to_orm_reference_node self mapping =
     (case mapping (RefKey (previous_node_ref self)) of
        None \<Rightarrow>
          Inl (ValueError (''Previous node ref '' @ quoted (previous_node_ref self)
                           @ '' not found in mapping''))
      | Some (previous_orm_node, previous_node_create) \<Rightarrow>
          if router_edge_label self \<noteq> [] \<and> schema_type previous_node_create = ''router''
          then (case find (\<lambda>edge. edge_label edge = router_edge_label self)
                       (schema_edges previous_node_create) of
                  None \<Rightarrow>
                    Inl (ValueError (''Branch label '' @ quoted (router_edge_label self)
                                     @ '' not found in previous router node''))
                | Some edge \<Rightarrow> Inr (orm_id previous_orm_node, uid edge))
          else Inr (orm_id previous_orm_node, []))"

section \<open>Creating a workflow (utils.py)\<close>

text \<open>
  \<open>WorkflowCreate\<close> is declared in \<open>types/workflow.py\<close>; \<open>create_workflow\<close> reads its
  \<open>name\<close>, \<open>trigger\<close> and \<open>nodes\<close>.
\<close>

record WorkflowCreate =
  name :: string
  trigger :: TriggerNodeCreate
  nodes :: "AnyNodeCreate list"

text \<open>
  The state \<open>create_workflow\<close> works on: its local dictionary \<open>node_mapping\<close> and the
  calls made to the host services so far.
\<close>

record run_state =
  node_mapping :: node_mapping
  calls :: "service_call list"

text \<open>
  \<open>node_mapping[ref] = node_mapping[orm_node.id] = (orm_node, node)\<close>: the chained
  assignment stores the pair under the ref first, then under the ORM id.
\<close>

definition register :: "node_mapping \<Rightarrow> string \<Rightarrow> AutomationNode \<Rightarrow> schema_node \<Rightarrow> node_mapping" where
  "register m r orm_node node = m(RefKey r \<mapsto> (orm_node, node), IdKey (orm_id orm_node) \<mapsto> (orm_node, node))"

text \<open>
  The primary keys are the host's choice: \<open>ids n\<close> is the key the service returns
  for the call that is number \<open>n\<close> of the run (the workflow is call 0, the trigger
  call 1, the nodes follow). The loop over \<open>workflow.nodes\<close> (lines 68-81) stops at
  the first exception, which leaves the function; the state at that moment is returned
  beside it.
\<close>

fun create_nodes ::
  "(nat \<Rightarrow> int) \<Rightarrow> int \<Rightarrow> AutomationWorkflow \<Rightarrow> AnyNodeCreate list \<Rightarrow> run_state
     \<Rightarrow> run_state \<times> error option" where
  "create_nodes ids user orm_wf [] s = (s, None)"
| "create_nodes ids user orm_wf (node # rest) s =
     (let orm_service_data = to_orm_service_dict node in
      case to_orm_reference_node node (node_mapping s) of
        Inl e \<Rightarrow> (s, Some e)
      | Inr (ref_id, out) \<Rightarrow>
          (let orm_node = \<lparr>orm_id = ids (length (calls s)),
                             node_type = node_type_str node,
                             workflow_id = wf_id orm_wf,
                             reference_node_id = Some ref_id,
                             node_output = Some out,
                             node_label = label node,
                             service = orm_service_data\<rparr>
           in create_nodes ids user orm_wf rest
                \<lparr>node_mapping = register (node_mapping s) (ref node) orm_node (NodeSchema node),
                 calls = calls s @ [CreateNode user orm_node]\<rparr>))"

text \<open>Lines 46-66: the workflow record, then the trigger node and its two keys.\<close>

definition new_workflow :: "(nat \<Rightarrow> int) \<Rightarrow> int \<Rightarrow> WorkflowCreate \<Rightarrow> AutomationWorkflow" where
  "new_workflow ids automation_id workflow =
     \<lparr>wf_id = ids 0, wf_automation_id = automation_id, wf_name = name workflow\<rparr>"

definition new_trigger :: "(nat \<Rightarrow> int) \<Rightarrow> WorkflowCreate \<Rightarrow> AutomationNode" where
  "new_trigger ids workflow =
     \<lparr>orm_id = ids 1,
      node_type = trigger_type_str (trigger_type (trigger workflow)),
      workflow_id = ids 0,
      reference_node_id = None,
      node_output = None,
      node_label = trigger_label (trigger workflow),
      service = trigger_to_orm_service_dict (trigger workflow)\<rparr>"

definition after_trigger :: "(nat \<Rightarrow> int) \<Rightarrow> int \<Rightarrow> int \<Rightarrow> WorkflowCreate \<Rightarrow> run_state" where
  "after_trigger ids user automation_id workflow =
     \<lparr>node_mapping = register Map.empty (trigger_ref (trigger workflow)) (new_trigger ids workflow)
                  (TriggerSchema (trigger workflow)),
      calls = [CreateWorkflow user (new_workflow ids automation_id workflow),
               CreateNode user (new_trigger ids workflow)]\<rparr>"

definition run_workflow ::
  "(nat \<Rightarrow> int) \<Rightarrow> int \<Rightarrow> int \<Rightarrow> WorkflowCreate \<Rightarrow> run_state \<times> error option" where
  "run_workflow ids user automation_id workflow =
     create_nodes ids user (new_workflow ids automation_id workflow) (nodes workflow)
       (after_trigger ids user automation_id workflow)"

text \<open>
  \<open>create_workflow\<close>: the calls it made, and the workflow it returns or the exception it
  raises.
\<close>

definition create_workflow ::
  "(nat \<Rightarrow> int) \<Rightarrow> int \<Rightarrow> int \<Rightarrow> WorkflowCreate
     \<Rightarrow> service_call list \<times> (error + AutomationWorkflow)" where
  "create_workflow ids user automation_id workflow =
     (case run_workflow ids user automation_id workflow of
        (s, Some e) \<Rightarrow> (calls s, Inl e)
      | (s, None) \<Rightarrow> (calls s, Inr (new_workflow ids automation_id workflow)))"

text \<open>
  \<open>get_workflow\<close> (lines 26-34). The workflow service is the host's: \<open>svc user wid\<close>
  is what it returns or raises. \<open>found_workspace_id\<close> is \<open>workflow.automation.workspace_id\<close>.
\<close>

record FoundWorkflow =
  found_id :: int
  found_workspace_id :: int

definition get_workflow ::
  "(int \<Rightarrow> int \<Rightarrow> error + FoundWorkflow) \<Rightarrow> int \<Rightarrow> int \<Rightarrow> int \<Rightarrow> error + FoundWorkflow" where
  "get_workflow svc wid user workspace_id =
     (case svc user wid of
        Inl e \<Rightarrow> Inl e
      | Inr workflow \<Rightarrow>
          if found_workspace_id workflow \<noteq> workspace_id
          then Inl (ValueError ''Workflow not in workspace'')
          else Inr workflow)"

section \<open>The AI field's background task\<close>

text \<open>
  The task \<open>baserow_premium.fields.tasks.generate_ai_values_for_rows\<close> and the handling of
  created rows are exercised by \<open>tests/baserow_premium_tests/fields/test_ai_field_tasks.py\<close>;
  their own source is not among the files of this development. What follows is a model of
  them.

  The prompt of an AI field is a formula. The tests use three forms: a quoted text, a
  reference \<open>get('fields.field_<id>')\<close> to a field of the row, and \<open>concat(...)\<close>.
\<close>

datatype formula = Text string | Get int | Concat "formula list"

text \<open>A row: its id, and the cell of every field it has a value for, by field id.\<close>

record Row =
  row_id :: int
  cells :: "int \<rightharpoonup> string"

text \<open>
  Modelled from the spec: the formula language interpreter, which the spec names as an
  external collaborator. The prompt formula is evaluated against one row; a reference to a
  field the row has no value for gives the empty text (the test
  \<open>test_generate_ai_field_value_view_generative_ai_invalid_field\<close>).
\<close>

fun resolve_formula :: "formula \<Rightarrow> Row \<Rightarrow> string" where
  "resolve_formula (Text s) row = s"
| "resolve_formula (Get f) row = (case cells row f of None \<Rightarrow> [] | Some v \<Rightarrow> v)"
| "resolve_formula (Concat fs) row = concat (map (\<lambda>f. resolve_formula f row) fs)"

record AIField =
  ai_field_id :: int
  ai_prompt :: formula
  ai_temperature :: "real option"
  ai_auto_update :: bool
  ai_auto_update_user_id :: "int option"

text \<open>
  The pluggable generative-AI backend, injected: from the temperature and the prompt it
  gives the generated text (\<open>Inr\<close>) or raises \<open>GenerativeAIPromptError\<close> with a message
  (\<open>Inl\<close>).
\<close>

type_synonym generative_ai = "real option \<Rightarrow> string \<Rightarrow> string + string"

datatype ai_error = GenerativeAIPromptError string

text \<open>
  The two signals \<open>rows_updated\<close> and \<open>rows_ai_values_generation_error\<close>, with the
  keyword arguments the tests read: the user, the rows, and \<open>updated_field_ids\<close> or the
  field and \<open>error_message\<close>.
\<close>

datatype signal =
    signal_rows_updated int "Row list" "int set"
  | signal_rows_ai_values_generation_error int "Row list" int string

text \<open>
  The table's rows, the signals sent so far, and the prompts handed to the backend so far,
  each in order.
\<close>

record table_state =
  table_rows :: "Row list"
  sent :: "signal list"
  prompts :: "string list"

text \<open>
  Modelled from the spec: the loop of the task \<open>generate_ai_values_for_rows\<close> over the
  requested rows. For each row the prompt formula is evaluated and the backend is called
  once; the first error ends the loop. The result is the prompts that were sent, and the
  error message or the rows with the generated value in the AI field's column.
\<close>

fun generate_values :: "generative_ai \<Rightarrow> AIField \<Rightarrow> Row list \<Rightarrow> string list \<times> (string + Row list)" where
  "generate_values ai field [] = ([], Inr [])"
| "generate_values ai field (row # rest) =
     (let message = resolve_formula (ai_prompt field) row in
      case ai (ai_temperature field) message of
        Inl msg \<Rightarrow> ([message], Inl msg)
      | Inr v \<Rightarrow>
          (case generate_values ai field rest of
             (ps, Inl msg) \<Rightarrow> (message # ps, Inl msg)
           | (ps, Inr rows) \<Rightarrow>
               (message # ps, Inr (row\<lparr>cells := (cells row)(ai_field_id field \<mapsto> v)\<rparr> # rows))))"

text \<open>Writing updated rows back to the table, each in the place of the row with its id.\<close>

definition store_rows :: "Row list \<Rightarrow> Row list \<Rightarrow> Row list" where
  "store_rows updated tbl =
     map (\<lambda>row. case find (\<lambda>u. row_id u = row_id row) updated of
                   None \<Rightarrow> row
                 | Some u \<Rightarrow> u) tbl"

text \<open>
  Modelled from the spec: the task \<open>generate_ai_values_for_rows(user_id, field_id, row_ids)\<close>,
  "a thin retry-free background job that calls an injected AI-generation service and fires
  change-notification signals". The field is given in place of its id. When every prompt
  succeeds the values are stored and \<open>rows_updated\<close> is sent with the updated rows and the
  field's id; when a prompt fails, \<open>rows_ai_values_generation_error\<close> is sent with the
  requested rows, the field and the message, nothing is stored, and the error is raised
  again.
\<close>

definition generate_ai_values_for_rows ::
  "generative_ai \<Rightarrow> int \<Rightarrow> AIField \<Rightarrow> int list \<Rightarrow> table_state \<Rightarrow> table_state \<times> (ai_error + unit)" where
  "generate_ai_values_for_rows ai user_id field row_ids st =
     (let rows = filter (\<lambda>row. row_id row \<in> set row_ids) (table_rows st) in
      case generate_values ai field rows of
        (ps, Inl msg) \<Rightarrow>
          (st\<lparr>sent := sent st @ [signal_rows_ai_values_generation_error user_id rows (ai_field_id field) msg],
              prompts := prompts st @ ps\<rparr>,
           Inl (GenerativeAIPromptError msg))
      | (ps, Inr updated) \<Rightarrow>
          (st\<lparr>table_rows := store_rows updated (table_rows st),
              sent := sent st @ [signal_rows_updated user_id updated {ai_field_id field}],
              prompts := prompts st @ ps\<rparr>,
           Inr ()))"

text \<open>
  The fields of a table, the users (each with \<open>has_active_premium_license\<close>; a deleted user
  is absent), and the arguments of the queued \<open>generate_ai_values_for_rows.delay\<close> calls.
\<close>

record auto_update_state =
  ai_fields :: "AIField list"
  users :: "int \<rightharpoonup> bool"
  delayed :: "(int \<times> int \<times> int list) list"

text \<open>
  Modelled from the spec: what creating rows does for one AI field of the table, the
  "background-task wiring" of the spec, in the three cases of the tests
  \<open>test_generate_ai_field_value_auto_update\<close>, \<open>..._no_license_user\<close> and
  \<open>test_generate_ai_field_auto_update_without_user\<close>. The result is the field as it is
  saved and the task calls that are queued for it.
\<close>

definition auto_update_field ::
  "(int \<rightharpoonup> bool) \<Rightarrow> int list \<Rightarrow> AIField \<Rightarrow> AIField \<times> (int \<times> int \<times> int list) list" where
  "auto_update_field us row_ids field =
     (if \<not> ai_auto_update field then (field, [])
      else case ai_auto_update_user_id field of
             None \<Rightarrow> (field\<lparr>ai_auto_update := False\<rparr>, [])
           | Some auto_user \<Rightarrow>
               (case us auto_user of
                  Some True \<Rightarrow> (field, [(auto_user, ai_field_id field, row_ids)])
                | _ \<Rightarrow> (field\<lparr>ai_auto_update := False\<rparr>, [])))"

text \<open>Modelled from the spec: the same for every AI field of the table, in order.\<close>

definition rows_created_auto_update :: "int list \<Rightarrow> auto_update_state \<Rightarrow> auto_update_state" where
  "rows_created_auto_update row_ids st =
     st\<lparr>ai_fields := map (\<lambda>f. fst (auto_update_field (users st) row_ids f)) (ai_fields st),
        delayed := delayed st
                   @ concat (map (\<lambda>f. snd (auto_update_field (users st) row_ids f)) (ai_fields st))\<rparr>"

section \<open>Example inputs\<close>

text \<open>A router with three branches, two of them labelled alike, and the node the service made for it.\<close>

definition ex_router :: AnyNodeCreate where
  "ex_router = \<lparr>ref = ''r'', label = ''Route'', previous_node_ref = ''t'', router_edge_label = [],
       config = Router [\<lparr>edge_label = ''no'', condition = [], uid = ''u0''\<rparr>,
                        \<lparr>edge_label = ''yes'', condition = [], uid = ''u1''\<rparr>,
                        \<lparr>edge_label = ''yes'', condition = [], uid = ''u2''\<rparr>]\<rparr>"

definition ex_router_orm :: AutomationNode where
  "ex_router_orm = \<lparr>orm_id = 5, node_type = ''router'', workflow_id = 1, reference_node_id = Some 4,
       node_output = Some [], node_label = ''Route'', service = to_orm_service_dict ex_router\<rparr>"

text \<open>A node that follows the router along the branch labelled \<open>l\<close>.\<close>

definition ex_after :: "string \<Rightarrow> AnyNodeCreate" where
  "ex_after l = \<lparr>ref = ''a'', label = ''Act'', previous_node_ref = ''r'', router_edge_label = l,
       config = DeleteRowAction 9 ''1''\<rparr>"

text \<open>
  The workflow of the repository's test \<open>test_create_workflow_with_row_triggers_and_actions\<close>:
  a rows-updated trigger without settings, followed by the given nodes.
\<close>

definition ex_rows_trigger :: TriggerNodeCreate where
  "ex_rows_trigger = \<lparr>trigger_ref = ''trigger'', trigger_label = ''Rows Updated Trigger'',
       trigger_type = rows_updated, periodic_interval = None, rows_triggers_settings = None\<rparr>"

definition ex_workflow :: "AnyNodeCreate list \<Rightarrow> WorkflowCreate" where
  "ex_workflow ns = \<lparr>name = ''Test Row Trigger Workflow'', trigger = ex_rows_trigger, nodes = ns\<rparr>"

definition ex_update_row :: "string \<Rightarrow> string \<Rightarrow> pydict \<Rightarrow> AnyNodeCreate" where
  "ex_update_row prev row vals = \<lparr>ref = ''action'', label = ''Update Row Action'',
       previous_node_ref = prev, router_edge_label = [], config = UpdateRowAction 999 row vals\<rparr>"

text \<open>
  Two update-row actions in a chain. Both carry the ref \<open>action\<close>, and the second names
  \<open>action\<close> as its previous node.
\<close>

definition ex_chain :: WorkflowCreate where
  "ex_chain = ex_workflow [ex_update_row ''trigger'' ''1'' [], ex_update_row ''action'' ''2'' []]"

definition ex_chain_workflow :: AutomationWorkflow where
  "ex_chain_workflow = \<lparr>wf_id = 0, wf_automation_id = 2, wf_name = ''Test Row Trigger Workflow''\<rparr>"

definition ex_chain_trigger :: AutomationNode where
  "ex_chain_trigger = \<lparr>orm_id = 1, node_type = ''rows_updated'', workflow_id = 0,
       reference_node_id = None, node_output = None,
       node_label = ''Rows Updated Trigger'', service = []\<rparr>"

definition ex_chain_node :: "int \<Rightarrow> int \<Rightarrow> AutomationNode" where
  "ex_chain_node i prev = \<lparr>orm_id = i, node_type = ''update_row'', workflow_id = 0,
       reference_node_id = Some prev, node_output = Some [],
       node_label = ''Update Row Action'', service = [(''table_id'', PInt 999)]\<rparr>"

definition ex_chain_calls :: "service_call list" where
  "ex_chain_calls = [CreateWorkflow 1 ex_chain_workflow, CreateNode 1 ex_chain_trigger,
       CreateNode 1 (ex_chain_node 2 1), CreateNode 1 (ex_chain_node 3 2)]"

text \<open>A node that names a router placed after it in the list.\<close>

definition ex_forward :: WorkflowCreate where
  "ex_forward = ex_workflow [ex_after [], ex_router]"

text \<open>The loop of \<open>create_workflow\<close> run on both nodes of the chain.\<close>

definition ex_chain_run :: "run_state \<times> error option" where
  "ex_chain_run = create_nodes int 1 (new_workflow int 2 ex_chain) (take 2 (nodes ex_chain))
                    (after_trigger int 1 2 ex_chain)"

text \<open>
  The AI field of the tests, with the prompt \<open>concat('Hello ', get('fields.field_1'), ' ',
  get('fields.field_2'))\<close>, three rows, the tests' backend that answers
  \<open>Generated with temperature None: <prompt>\<close>, the backend that raises
  \<open>GenerativeAIPromptError("Test error")\<close>, and a table with one AI field.
\<close>

definition ex_row_bram :: Row where
  "ex_row_bram = \<lparr>row_id = 1, cells = [1 \<mapsto> ''Bram'', 2 \<mapsto> ''Wiepjes'']\<rparr>"

definition ex_row_blank :: Row where
  "ex_row_blank = \<lparr>row_id = 2, cells = Map.empty\<rparr>"

definition ex_row_other :: Row where
  "ex_row_other = \<lparr>row_id = 3, cells = [1 \<mapsto> ''Jane'']\<rparr>"

definition ex_table_state :: table_state where
  "ex_table_state = \<lparr>table_rows = [ex_row_bram, ex_row_blank, ex_row_other], sent = [], prompts = []\<rparr>"

definition ex_ai_field :: AIField where
  "ex_ai_field =
     \<lparr>ai_field_id = 3,
      ai_prompt = Concat [Text ''Hello '', Get 1, Text '' '', Get 2],
      ai_temperature = None,
      ai_auto_update = True,
      ai_auto_update_user_id = Some 7\<rparr>"

definition ex_generative_ai :: generative_ai where
  "ex_generative_ai temperature message = Inr (''Generated with temperature None: '' @ message)"

definition ex_failing_ai :: generative_ai where
  "ex_failing_ai temperature message = Inl ''Test error''"

definition ex_auto_update_state :: "(int \<rightharpoonup> bool) \<Rightarrow> AIField \<Rightarrow> auto_update_state" where
  "ex_auto_update_state us field = \<lparr>ai_fields = [field], users = us, delayed = []\<rparr>"

section \<open>Notions used in the proofs\<close>

text \<open>The ORM id that \<open>node_mapping\<close> holds for a client ref.\<close>

definition ref_ids :: "node_mapping \<Rightarrow> string \<rightharpoonup> int" where
  "ref_ids m r = map_option (\<lambda>(orm_node, node). orm_id orm_node) (m (RefKey r))"

text \<open>The two exceptions of \<open>to_orm_reference_node\<close>.\<close>

definition prev_error :: "AnyNodeCreate \<Rightarrow> error" where
  "prev_error node =
     ValueError (''Previous node ref '' @ quoted (previous_node_ref node) @ '' not found in mapping'')"

definition branch_error :: "AnyNodeCreate \<Rightarrow> error" where
  "branch_error node =
     ValueError (''Branch label '' @ quoted (router_edge_label node)
                 @ '' not found in previous router node'')"

text \<open>
  The refs of the first \<open>i\<close> nodes of \<open>ns\<close>, each with the key of its call when the first
  of them is call number \<open>c\<close>.
\<close>

definition earlier_refs :: "(nat \<Rightarrow> int) \<Rightarrow> nat \<Rightarrow> AnyNodeCreate list \<Rightarrow> nat \<Rightarrow> (string \<times> int) list" where
  "earlier_refs ids c ns i = zip (map ref (take i ns)) (map ids [c..<c + i])"

text \<open>The nodes the node-creation service was asked for, in the order of the calls.\<close>

fun created_nodes :: "service_call list \<Rightarrow> AutomationNode list" where
  "created_nodes [] = []"
| "created_nodes (CreateNode u n # cs) = n # created_nodes cs"
| "created_nodes (CreateWorkflow u w # cs) = created_nodes cs"

text \<open>The client ref of a schema node: \<open>workflow.trigger.ref\<close> or \<open>node.ref\<close>.\<close>

fun schema_ref :: "schema_node \<Rightarrow> string" where
  "schema_ref (TriggerSchema t) = trigger_ref t"
| "schema_ref (NodeSchema n) = ref n"

text \<open>
  The dictionary that results from registering the given pairs, one after the other, each
  under its ref and under its ORM id.
\<close>

definition registered_mapping :: "(AutomationNode \<times> schema_node) list \<Rightarrow> node_mapping" where
  "registered_mapping reg =
     foldl (\<lambda>m (orm_node, node). register m (schema_ref node) orm_node node) Map.empty reg"

text \<open>The schema node that \<open>node_mapping\<close> holds for a client ref.\<close>

definition ref_schemas :: "node_mapping \<Rightarrow> string \<rightharpoonup> schema_node" where
  "ref_schemas m r = map_option snd (m (RefKey r))"

text \<open>
  \<open>to_orm_reference_node\<close> finds what it needs in the previous node: the node has no
  \<open>router_edge_label\<close>, or the previous node is no router, or one of the router's branches
  has the label.
\<close>

definition branch_found :: "AnyNodeCreate \<Rightarrow> schema_node \<Rightarrow> bool" where
  "branch_found node previous \<longleftrightarrow>
     router_edge_label node = [] \<or> schema_type previous \<noteq> ''router''
     \<or> find (\<lambda>edge. edge_label edge = router_edge_label node) (schema_edges previous) \<noteq> None"

text \<open>The first \<open>i\<close> nodes of \<open>ns\<close>, each under its ref.\<close>

definition earlier_schemas :: "AnyNodeCreate list \<Rightarrow> nat \<Rightarrow> (string \<times> schema_node) list" where
  "earlier_schemas ns i = map (\<lambda>n. (ref n, NodeSchema n)) (take i ns)"

text \<open>
  Node \<open>i\<close> of the list resolves: its \<open>previous_node_ref\<close> is the ref of one of the nodes
  before it in the list (the latest one with that ref counts) or else a ref that \<open>P\<close> holds,
  and the branch is found in that node.
\<close>

definition resolves_from :: "(string \<rightharpoonup> schema_node) \<Rightarrow> AnyNodeCreate list \<Rightarrow> nat \<Rightarrow> bool" where
  "resolves_from P ns i =
     (case (P ++ map_of (rev (earlier_schemas ns i))) (previous_node_ref (ns ! i)) of
        None \<Rightarrow> False
      | Some previous \<Rightarrow> branch_found (ns ! i) previous)"

text \<open>The same for node \<open>i\<close> of a workflow, where the trigger comes before the list.\<close>

definition resolves :: "WorkflowCreate \<Rightarrow> nat \<Rightarrow> bool" where
  "resolves workflow i =
     resolves_from [trigger_ref (trigger workflow) \<mapsto> TriggerSchema (trigger workflow)]
       (nodes workflow) i"

text \<open>
  The rows the task is asked for, the prompt sent for a row, the value the backend gives for
  it, and the row with that value in the AI field's column.
\<close>

definition requested_rows :: "int list \<Rightarrow> table_state \<Rightarrow> Row list" where
  "requested_rows row_ids st = filter (\<lambda>row. row_id row \<in> set row_ids) (table_rows st)"

definition ai_message :: "AIField \<Rightarrow> Row \<Rightarrow> string" where
  "ai_message field row = resolve_formula (ai_prompt field) row"

definition ai_value :: "generative_ai \<Rightarrow> AIField \<Rightarrow> Row \<Rightarrow> string option" where
  "ai_value ai field row =
     (case ai (ai_temperature field) (ai_message field row) of
        Inl msg \<Rightarrow> None
      | Inr v \<Rightarrow> Some v)"

definition with_ai_value :: "generative_ai \<Rightarrow> AIField \<Rightarrow> Row \<Rightarrow> Row" where
  "with_ai_value ai field row = row\<lparr>cells := (cells row)(ai_field_id field := ai_value ai field row)\<rparr>"

text \<open>The auto-update user of a field exists and has an active premium license.\<close>

definition auto_update_user_licensed :: "(int \<rightharpoonup> bool) \<Rightarrow> AIField \<Rightarrow> bool" where
  "auto_update_user_licensed us field =
     (case ai_auto_update_user_id field of
        None \<Rightarrow> False
      | Some auto_user \<Rightarrow> us auto_user = Some True)"

section \<open>Lemmas\<close>

lemma schema_type_router:
  "schema_type s = ''router'' \<longleftrightarrow> (\<exists>n edges. s = NodeSchema n \<and> config n = Router edges)"
proof (cases s)
  case (TriggerSchema t)
  then show ?thesis by (cases "trigger_type t") simp_all
next
  case (NodeSchema n)
  then show ?thesis by (cases "config n") (simp_all add: node_type_str_def)
qed

lemma ref_ids_register:
  "ref_ids (register m r orm_node node) = (ref_ids m)(r \<mapsto> orm_id orm_node)"
  by (rule ext) (simp add: ref_ids_def register_def)

lemma to_orm_reference_node_Inr:
  "to_orm_reference_node node m = Inr (rid, out) \<Longrightarrow> ref_ids m (previous_node_ref node) = Some rid"
  by (auto simp: to_orm_reference_node_def ref_ids_def split: option.splits if_splits)

lemma to_orm_reference_node_Inl:
  "to_orm_reference_node node m = Inl e \<Longrightarrow>
     (e = prev_error node \<and> ref_ids m (previous_node_ref node) = None)
     \<or> (e = branch_error node \<and> ref_ids m (previous_node_ref node) \<noteq> None)"
  by (auto simp: to_orm_reference_node_def ref_ids_def prev_error_def branch_error_def
           split: option.splits if_splits)

lemma earlier_refs_0: "earlier_refs ids c ns 0 = []"
  by (simp add: earlier_refs_def)

lemma earlier_refs_Suc:
  "earlier_refs ids c (n # ns) (Suc i) = (ref n, ids c) # earlier_refs ids (Suc c) ns i"
  proof -
  have "[c..<c + Suc i] = c # [Suc c..<Suc c + i]"
    by (simp add: upt_rec [of c])
  then show ?thesis
    by (simp add: earlier_refs_def)
qed

lemma resolve_shift:
  "(P(ref n \<mapsto> ids c)) ++ map_of (rev (earlier_refs ids (Suc c) ns i))
     = P ++ map_of (rev (earlier_refs ids c (n # ns) (Suc i)))"
  by (simp add: earlier_refs_Suc map_add_assoc [symmetric])

lemma create_nodes_trace:
  assumes "create_nodes ids user orm_wf ns s = (s', r)"
  shows "\<exists>k\<le>length ns.
           length (calls s') = length (calls s) + k
         \<and> take (length (calls s)) (calls s') = calls s
         \<and> (r = None \<longrightarrow> k = length ns)
         \<and> (\<forall>e. r = Some e \<longrightarrow> k < length ns
               \<and> (e = prev_error (ns ! k)
                    \<and> (ref_ids (node_mapping s) ++ map_of (rev (earlier_refs ids (length (calls s)) ns k)))
                          (previous_node_ref (ns ! k)) = None
                  \<or> e = branch_error (ns ! k)
                    \<and> (ref_ids (node_mapping s) ++ map_of (rev (earlier_refs ids (length (calls s)) ns k)))
                          (previous_node_ref (ns ! k)) \<noteq> None))
         \<and> (\<forall>i<k. \<exists>n. calls s' ! (length (calls s) + i) = CreateNode user n
               \<and> orm_id n = ids (length (calls s) + i)
               \<and> node_type n = node_type_str (ns ! i)
               \<and> workflow_id n = wf_id orm_wf
               \<and> node_label n = label (ns ! i)
               \<and> service n = to_orm_service_dict (ns ! i)
               \<and> reference_node_id n
                    = (ref_ids (node_mapping s) ++ map_of (rev (earlier_refs ids (length (calls s)) ns i)))
                        (previous_node_ref (ns ! i))
               \<and> reference_node_id n \<noteq> None)"
  using assms
proof (induction ns arbitrary: s)
  case Nil
  then show ?case by simp
next
  case (Cons node rest)
  show ?case
  proof (cases "to_orm_reference_node node (node_mapping s)")
    case (Inl e)
    with Cons.prems have "s' = s" "r = Some e" by simp_all
    moreover note to_orm_reference_node_Inl [OF Inl]
    ultimately show ?thesis
      by (intro exI [of _ 0]) (auto simp: earlier_refs_0)
  next
    case (Inr p)
    obtain rid out where p: "p = (rid, out)" by (cases p)
    define orm_node where "orm_node =
      \<lparr>orm_id = ids (length (calls s)), node_type = node_type_str node, workflow_id = wf_id orm_wf,
       reference_node_id = Some rid, node_output = Some out, node_label = label node,
       service = to_orm_service_dict node\<rparr>"
    define s1 where "s1 =
      \<lparr>node_mapping = register (node_mapping s) (ref node) orm_node (NodeSchema node),
       calls = calls s @ [CreateNode user orm_node]\<rparr>"
    from Cons.prems Inr p have run: "create_nodes ids user orm_wf rest s1 = (s', r)"
      by (simp add: s1_def orm_node_def Let_def)
    have len1: "length (calls s1) = Suc (length (calls s))"
      by (simp add: s1_def)
    have ids1: "ref_ids (node_mapping s1) = (ref_ids (node_mapping s))(ref node \<mapsto> ids (length (calls s)))"
      by (simp add: s1_def ref_ids_register orm_node_def)
    have res: "ref_ids (node_mapping s1) ++ map_of (rev (earlier_refs ids (length (calls s1)) rest i))
          = ref_ids (node_mapping s) ++ map_of (rev (earlier_refs ids (length (calls s)) (node # rest) (Suc i)))" for i
      unfolding ids1 len1 by (rule resolve_shift)
    from Cons.IH [OF run] obtain k where k: "k \<le> length rest"
      and l: "length (calls s') = length (calls s1) + k"
      and t: "take (length (calls s1)) (calls s') = calls s1"
      and ok: "r = None \<longrightarrow> k = length rest"
      and err: "\<forall>e. r = Some e \<longrightarrow> k < length rest
               \<and> (e = prev_error (rest ! k)
                    \<and> (ref_ids (node_mapping s1) ++ map_of (rev (earlier_refs ids (length (calls s1)) rest k)))
                          (previous_node_ref (rest ! k)) = None
                  \<or> e = branch_error (rest ! k)
                    \<and> (ref_ids (node_mapping s1) ++ map_of (rev (earlier_refs ids (length (calls s1)) rest k)))
                          (previous_node_ref (rest ! k)) \<noteq> None)"
      and made: "\<forall>i<k. \<exists>n. calls s' ! (length (calls s1) + i) = CreateNode user n
               \<and> orm_id n = ids (length (calls s1) + i)
               \<and> node_type n = node_type_str (rest ! i)
               \<and> workflow_id n = wf_id orm_wf
               \<and> node_label n = label (rest ! i)
               \<and> service n = to_orm_service_dict (rest ! i)
               \<and> reference_node_id n
                    = (ref_ids (node_mapping s1) ++ map_of (rev (earlier_refs ids (length (calls s1)) rest i)))
                        (previous_node_ref (rest ! i))
               \<and> reference_node_id n \<noteq> None"
      by blast
    have first: "calls s' ! length (calls s) = CreateNode user orm_node"
    proof -
      have "calls s' ! length (calls s) = take (length (calls s1)) (calls s') ! length (calls s)"
        by (simp add: len1)
      also have "\<dots> = CreateNode user orm_node"
        unfolding t by (simp add: s1_def)
      finally show ?thesis .
    qed
    have pre: "take (length (calls s)) (calls s') = calls s"
    proof -
      have "take (length (calls s)) (calls s') = take (length (calls s)) (take (length (calls s1)) (calls s'))"
        by (simp add: len1 min_def)
      also have "\<dots> = calls s"
        unfolding t by (simp add: s1_def)
      finally show ?thesis .
    qed
    have rid: "ref_ids (node_mapping s) (previous_node_ref node) = Some rid"
      using Inr p by (auto dest: to_orm_reference_node_Inr)
    show ?thesis
    proof (intro exI [of _ "Suc k"] conjI allI impI)
      show "Suc k \<le> length (node # rest)" using k by simp
      show "length (calls s') = length (calls s) + Suc k" using l len1 by simp
      show "take (length (calls s)) (calls s') = calls s" by (rule pre)
      show "Suc k = length (node # rest)" if "r = None" using that ok by simp
    next
      fix e assume e: "r = Some e"
      with err show "Suc k < length (node # rest)" by simp
      from err e
      show "e = prev_error ((node # rest) ! Suc k)
              \<and> (ref_ids (node_mapping s) ++ map_of (rev (earlier_refs ids (length (calls s)) (node # rest) (Suc k))))
                   (previous_node_ref ((node # rest) ! Suc k)) = None
            \<or> e = branch_error ((node # rest) ! Suc k)
              \<and> (ref_ids (node_mapping s) ++ map_of (rev (earlier_refs ids (length (calls s)) (node # rest) (Suc k))))
                   (previous_node_ref ((node # rest) ! Suc k)) \<noteq> None"
        unfolding res [symmetric] by simp
    next
      fix i assume i: "i < Suc k"
      show "\<exists>n. calls s' ! (length (calls s) + i) = CreateNode user n
               \<and> orm_id n = ids (length (calls s) + i)
               \<and> node_type n = node_type_str ((node # rest) ! i)
               \<and> workflow_id n = wf_id orm_wf
               \<and> node_label n = label ((node # rest) ! i)
               \<and> service n = to_orm_service_dict ((node # rest) ! i)
               \<and> reference_node_id n
                    = (ref_ids (node_mapping s) ++ map_of (rev (earlier_refs ids (length (calls s)) (node # rest) i)))
                        (previous_node_ref ((node # rest) ! i))
               \<and> reference_node_id n \<noteq> None"
      proof (cases i)
        case 0
        with first rid show ?thesis
          by (intro exI [of _ orm_node]) (simp add: orm_node_def earlier_refs_0)
      next
        case (Suc i')
        with i have "i' < k" by simp
        with made obtain n where n: "calls s' ! (length (calls s1) + i') = CreateNode user n"
               "orm_id n = ids (length (calls s1) + i')"
               "node_type n = node_type_str (rest ! i')"
               "workflow_id n = wf_id orm_wf"
               "node_label n = label (rest ! i')"
               "service n = to_orm_service_dict (rest ! i')"
               "reference_node_id n
                    = (ref_ids (node_mapping s1) ++ map_of (rev (earlier_refs ids (length (calls s1)) rest i')))
                        (previous_node_ref (rest ! i'))"
               "reference_node_id n \<noteq> None"
          by blast
        then show ?thesis
          unfolding res Suc by (intro exI [of _ n]) (simp add: len1)
      qed
    qed
  qed
qed

lemma latest_ref_cases:
  assumes "(P ++ map_of (rev xs)) p = Some v"
  shows "(P p = Some v \<and> (\<forall>j<length xs. fst (xs ! j) \<noteq> p))
         \<or> (\<exists>j<length xs. xs ! j = (p, v) \<and> (\<forall>j'<length xs. j < j' \<longrightarrow> fst (xs ! j') \<noteq> p))"
  using assms
proof (induction xs rule: rev_induct)
  case Nil
  then show ?case by simp
next
  case (snoc x xs)
  show ?case
  proof (cases "p = fst x")
    case True
    with snoc.prems have "x = (p, v)"
      by (cases x) simp
    then have "(xs @ [x]) ! length xs = (p, v)
               \<and> (\<forall>j'<length (xs @ [x]). length xs < j' \<longrightarrow> fst ((xs @ [x]) ! j') \<noteq> p)"
      by simp
    then show ?thesis
      by (intro disjI2 exI [of _ "length xs"]) simp
  next
    case False
    with snoc.prems have "(P ++ map_of (rev xs)) p = Some v"
      by (cases x) (simp add: map_add_def)
    from snoc.IH [OF this] show ?thesis
    proof
      assume a: "P p = Some v \<and> (\<forall>j<length xs. fst (xs ! j) \<noteq> p)"
      have "\<forall>j<length (xs @ [x]). fst ((xs @ [x]) ! j) \<noteq> p"
        using a False by (auto simp: nth_append)
      with a show ?thesis by blast
    next
      assume "\<exists>j<length xs. xs ! j = (p, v) \<and> (\<forall>j'<length xs. j < j' \<longrightarrow> fst (xs ! j') \<noteq> p)"
      then obtain j where j: "j < length xs" "xs ! j = (p, v)"
        "\<forall>j'<length xs. j < j' \<longrightarrow> fst (xs ! j') \<noteq> p"
        by blast
      have "(xs @ [x]) ! j = (p, v)"
        using j by (simp add: nth_append)
      moreover have "\<forall>j'<length (xs @ [x]). j < j' \<longrightarrow> fst ((xs @ [x]) ! j') \<noteq> p"
        using j False by (auto simp: nth_append)
      ultimately show ?thesis
        using j(1) by (intro disjI2 exI [of _ j]) simp
    qed
  qed
qed

lemma latest_ref_None:
  "(P ++ map_of (rev xs)) p = None \<longleftrightarrow> P p = None \<and> p \<notin> fst ` set xs"
  by (auto simp: map_add_None map_of_eq_None_iff)

lemma length_earlier_refs:
  "i \<le> length ns \<Longrightarrow> length (earlier_refs ids c ns i) = i"
  by (simp add: earlier_refs_def)

lemma nth_earlier_refs:
  "i \<le> length ns \<Longrightarrow> j < i \<Longrightarrow> earlier_refs ids c ns i ! j = (ref (ns ! j), ids (c + j))"
  by (simp add: earlier_refs_def)

lemma fst_earlier_refs:
  assumes "i \<le> length ns"
  shows "p \<in> fst ` set (earlier_refs ids c ns i) \<longleftrightarrow> (\<exists>j<i. ref (ns ! j) = p)"
proof
  assume "p \<in> fst ` set (earlier_refs ids c ns i)"
  then obtain x where "x \<in> set (earlier_refs ids c ns i)" "fst x = p"
    by blast
  then obtain j where "j < length (earlier_refs ids c ns i)" "earlier_refs ids c ns i ! j = x"
    by (auto simp: in_set_conv_nth)
  with assms \<open>fst x = p\<close> show "\<exists>j<i. ref (ns ! j) = p"
    by (auto simp: length_earlier_refs nth_earlier_refs)
next
  assume "\<exists>j<i. ref (ns ! j) = p"
  then obtain j where j: "j < i" "ref (ns ! j) = p"
    by blast
  with assms have "earlier_refs ids c ns i ! j \<in> set (earlier_refs ids c ns i)"
    by (simp add: length_earlier_refs)
  with assms j have "(p, ids (c + j)) \<in> set (earlier_refs ids c ns i)"
    by (simp add: nth_earlier_refs)
  then show "p \<in> fst ` set (earlier_refs ids c ns i)"
    by force
qed

lemma ref_ids_after_trigger:
  "ref_ids (node_mapping (after_trigger ids user automation_id workflow))
     = [trigger_ref (trigger workflow) \<mapsto> ids 1]"
  by (rule ext) (simp add: ref_ids_def after_trigger_def register_def new_trigger_def)

lemma calls_after_trigger:
  "calls (after_trigger ids user automation_id workflow)
     = [CreateWorkflow user (new_workflow ids automation_id workflow),
        CreateNode user (new_trigger ids workflow)]"
  by (simp add: after_trigger_def)

lemma create_workflow_run:
  assumes "create_workflow ids user automation_id workflow = (trace, res)"
  obtains s r where "run_workflow ids user automation_id workflow = (s, r)"
    and "trace = calls s"
    and "res = (case r of Some e \<Rightarrow> Inl e | None \<Rightarrow> Inr (new_workflow ids automation_id workflow))"
  using assms
  by (cases "run_workflow ids user automation_id workflow")
     (auto simp: create_workflow_def split: option.splits)

lemma created_nodes_append:
  "created_nodes (cs @ ds) = created_nodes cs @ created_nodes ds"
  by (induction cs rule: created_nodes.induct) simp_all

lemma registered_mapping_snoc:
  "registered_mapping (reg @ [(orm_node, node)])
     = register (registered_mapping reg) (schema_ref node) orm_node node"
  by (simp add: registered_mapping_def)

lemma registered_mapping_Nil: "registered_mapping [] = Map.empty"
  by (simp add: registered_mapping_def)

lemma dom_register:
  "dom (register m r orm_node node) = insert (IdKey (orm_id orm_node)) (insert (RefKey r) (dom m))"
  by (auto simp: register_def)

lemma dom_registered_mapping:
  "dom (registered_mapping reg)
     = (\<lambda>(orm_node, node). RefKey (schema_ref node)) ` set reg
       \<union> (\<lambda>(orm_node, node). IdKey (orm_id orm_node)) ` set reg"
proof (induction reg rule: rev_induct)
  case Nil
  then show ?case by (simp add: registered_mapping_Nil)
next
  case (snoc x reg)
  obtain orm_node node where x: "x = (orm_node, node)" by (cases x)
  show ?case
    unfolding x registered_mapping_snoc dom_register snoc.IH
    by auto
qed

lemma registered_mapping_id:
  assumes "distinct (map (\<lambda>(orm_node, node). orm_id orm_node) reg)" and "c < length reg"
  shows "registered_mapping reg (IdKey (orm_id (fst (reg ! c)))) = Some (reg ! c)"
  using assms
proof (induction reg rule: rev_induct)
  case Nil
  then show ?case by simp
next
  case (snoc x reg)
  obtain orm_node node where x: "x = (orm_node, node)" by (cases x)
  show ?case
  proof (cases "c < length reg")
    case True
    from snoc.prems(1) have d: "distinct (map (\<lambda>(orm_node, node). orm_id orm_node) reg)"
      and n: "orm_id orm_node \<notin> (\<lambda>(orm_node, node). orm_id orm_node) ` set reg"
      by (simp_all add: x)
    from True have "reg ! c \<in> set reg" by simp
    with n have "orm_id (fst (reg ! c)) \<noteq> orm_id orm_node"
      by (cases "reg ! c") force
    with snoc.IH [OF d True] True show ?thesis
      unfolding x registered_mapping_snoc by (simp add: register_def nth_append)
  next
    case False
    with snoc.prems(2) have "c = length reg" by simp
    then show ?thesis
      unfolding x registered_mapping_snoc by (simp add: register_def)
  qed
qed

lemma registered_mapping_ref:
  assumes "c < length reg"
      and "\<forall>c'<length reg. c < c' \<longrightarrow> schema_ref (snd (reg ! c')) \<noteq> schema_ref (snd (reg ! c))"
  shows "registered_mapping reg (RefKey (schema_ref (snd (reg ! c)))) = Some (reg ! c)"
  using assms
proof (induction reg rule: rev_induct)
  case Nil
  then show ?case by simp
next
  case (snoc x reg)
  obtain orm_node node where x: "x = (orm_node, node)" by (cases x)
  show ?case
  proof (cases "c < length reg")
    case True
    from snoc.prems(2) [rule_format, of "length reg"] True
    have "schema_ref (snd ((reg @ [x]) ! length reg)) \<noteq> schema_ref (snd ((reg @ [x]) ! c))"
      by simp
    with True have ne: "schema_ref node \<noteq> schema_ref (snd (reg ! c))"
      by (simp add: x nth_append)
    have "\<forall>c'<length reg. c < c' \<longrightarrow> schema_ref (snd (reg ! c')) \<noteq> schema_ref (snd (reg ! c))"
    proof (intro allI impI)
      fix c' assume c': "c' < length reg" "c < c'"
      with snoc.prems(2) [rule_format, of c']
      have "schema_ref (snd ((reg @ [x]) ! c')) \<noteq> schema_ref (snd ((reg @ [x]) ! c))"
        by simp
      with c' True show "schema_ref (snd (reg ! c')) \<noteq> schema_ref (snd (reg ! c))"
        by (simp add: nth_append)
    qed
    from snoc.IH [OF True this] ne True show ?thesis
      unfolding x registered_mapping_snoc by (simp add: register_def nth_append)
  next
    case False
    with snoc.prems(1) have "c = length reg" by simp
    then show ?thesis
      unfolding x registered_mapping_snoc by (simp add: register_def)
  qed
qed

lemma create_nodes_registered:
  assumes "create_nodes ids user orm_wf ns s = (s', r)"
      and "node_mapping s = registered_mapping reg"
      and "created_nodes (calls s) = map fst reg"
  shows "\<exists>k\<le>length ns. \<exists>new. length new = k
           \<and> (r = None \<longrightarrow> k = length ns)
           \<and> node_mapping s' = registered_mapping (reg @ zip new (map NodeSchema (take k ns)))
           \<and> created_nodes (calls s') = map fst reg @ new
           \<and> map orm_id new = map ids [length (calls s)..<length (calls s) + k]
           \<and> (\<forall>e. r = Some e \<longrightarrow>
                 k < length ns \<and> (e = prev_error (ns ! k) \<or> e = branch_error (ns ! k)))"
  using assms
proof (induction ns arbitrary: s reg)
  case Nil
  then show ?case by (intro exI [of _ 0] conjI exI [of _ "[]"]) simp_all
next
  case (Cons node rest)
  show ?case
  proof (cases "to_orm_reference_node node (node_mapping s)")
    case (Inl e)
    with Cons.prems have "s' = s" "r = Some e" by simp_all
    moreover from to_orm_reference_node_Inl [OF Inl]
    have "e = prev_error node \<or> e = branch_error node" by blast
    ultimately show ?thesis
      using Cons.prems(2,3)
      by (intro exI [of _ 0] conjI exI [of _ "[]"]) simp_all
  next
    case (Inr p)
    obtain rid out where p: "p = (rid, out)" by (cases p)
    define orm_node where "orm_node =
      \<lparr>orm_id = ids (length (calls s)), node_type = node_type_str node, workflow_id = wf_id orm_wf,
       reference_node_id = Some rid, node_output = Some out, node_label = label node,
       service = to_orm_service_dict node\<rparr>"
    define s1 where "s1 =
      \<lparr>node_mapping = register (node_mapping s) (ref node) orm_node (NodeSchema node),
       calls = calls s @ [CreateNode user orm_node]\<rparr>"
    from Cons.prems(1) Inr p have run: "create_nodes ids user orm_wf rest s1 = (s', r)"
      by (simp add: s1_def orm_node_def Let_def)
    have m1: "node_mapping s1 = registered_mapping (reg @ [(orm_node, NodeSchema node)])"
      unfolding registered_mapping_snoc by (simp add: s1_def Cons.prems(2))
    have c1: "created_nodes (calls s1) = map fst (reg @ [(orm_node, NodeSchema node)])"
      by (simp add: s1_def created_nodes_append Cons.prems(3))
    have len1: "length (calls s1) = Suc (length (calls s))"
      by (simp add: s1_def)
    from Cons.IH [OF run m1 c1] obtain k new where k: "k \<le> length rest"
      and new: "length new = k"
      and ok: "r = None \<longrightarrow> k = length rest"
      and m: "node_mapping s' = registered_mapping
                ((reg @ [(orm_node, NodeSchema node)]) @ zip new (map NodeSchema (take k rest)))"
      and c: "created_nodes (calls s') = map fst (reg @ [(orm_node, NodeSchema node)]) @ new"
      and i: "map orm_id new = map ids [length (calls s1)..<length (calls s1) + k]"
      and err: "\<forall>e. r = Some e \<longrightarrow>
                 k < length rest \<and> (e = prev_error (rest ! k) \<or> e = branch_error (rest ! k))"
      by blast
    have up: "[length (calls s)..<length (calls s) + Suc k]
                = length (calls s) # [length (calls s1)..<length (calls s1) + k]"
      unfolding len1 by (simp add: upt_rec [of "length (calls s)"])
    show ?thesis
    proof (intro exI [of _ "Suc k"] conjI exI [of _ "orm_node # new"] impI allI)
      show "Suc k \<le> length (node # rest)" using k by simp
      show "Suc k < length (node # rest)" if "r = Some e" for e
        using that err by simp
      show "e = prev_error ((node # rest) ! Suc k) \<or> e = branch_error ((node # rest) ! Suc k)"
        if "r = Some e" for e
        using that err by simp
      show "length (orm_node # new) = Suc k" using new by simp
      show "Suc k = length (node # rest)" if "r = None" using that ok by simp
      show "node_mapping s' = registered_mapping
              (reg @ zip (orm_node # new) (map NodeSchema (take (Suc k) (node # rest))))"
        using m by simp
      show "created_nodes (calls s') = map fst reg @ orm_node # new"
        using c by simp
      show "map orm_id (orm_node # new) = map ids [length (calls s)..<length (calls s) + Suc k]"
        unfolding up using i by (simp add: orm_node_def)
    qed
  qed
qed

lemma ref_schemas_register:
  "ref_schemas (register m r orm_node node) = (ref_schemas m)(r \<mapsto> node)"
  by (rule ext) (simp add: ref_schemas_def register_def)

lemma ref_schemas_after_trigger:
  "ref_schemas (node_mapping (after_trigger ids user automation_id workflow))
     = [trigger_ref (trigger workflow) \<mapsto> TriggerSchema (trigger workflow)]"
  by (rule ext) (simp add: ref_schemas_def after_trigger_def register_def)

lemma to_orm_reference_node_found:
  "to_orm_reference_node node m = Inr p \<Longrightarrow>
     \<exists>previous. ref_schemas m (previous_node_ref node) = Some previous \<and> branch_found node previous"
  by (auto simp: to_orm_reference_node_def ref_schemas_def branch_found_def
           split: option.splits if_splits)

lemma to_orm_reference_node_not_found:
  "to_orm_reference_node node m = Inl e \<Longrightarrow>
     ref_schemas m (previous_node_ref node) = None
     \<or> (\<exists>previous. ref_schemas m (previous_node_ref node) = Some previous
           \<and> \<not> branch_found node previous)"
  by (auto simp: to_orm_reference_node_def ref_schemas_def branch_found_def
           split: option.splits if_splits)

lemma resolves_from_0:
  "resolves_from P (node # rest) 0 =
     (case P (previous_node_ref node) of None \<Rightarrow> False | Some previous \<Rightarrow> branch_found node previous)"
  by (simp add: resolves_from_def earlier_schemas_def cong: option.case_cong)

lemma resolves_from_Suc:
  "resolves_from P (node # rest) (Suc i) = resolves_from (P(ref node \<mapsto> NodeSchema node)) rest i"
proof -
  have "(P(ref node \<mapsto> NodeSchema node)) ++ map_of (rev (earlier_schemas rest i))
      = P ++ map_of (rev (earlier_schemas (node # rest) (Suc i)))"
    by (simp add: earlier_schemas_def map_add_assoc [symmetric])
  then show ?thesis
    by (simp add: resolves_from_def cong: option.case_cong)
qed

lemma resolves_from_take:
  "i < j \<Longrightarrow> resolves_from P (take j ns) i = resolves_from P ns i"
  by (simp add: resolves_from_def earlier_schemas_def min_def cong: option.case_cong)

lemma resolves_own_ref:
  "i < length (nodes workflow) \<Longrightarrow>
   resolves (workflow\<lparr>nodes := (nodes workflow)[i := (nodes workflow ! i)\<lparr>ref := r'\<rparr>]\<rparr>) i
     = resolves workflow i"
  by (simp add: resolves_def resolves_from_def earlier_schemas_def branch_found_def cong: option.case_cong)

text \<open>
  For a node without a branch label, to resolve is to name the trigger's ref or the ref of
  a node before it in the list.
\<close>

lemma resolves_plain:
  assumes "i < length (nodes workflow)" and "router_edge_label (nodes workflow ! i) = []"
  shows "resolves workflow i \<longleftrightarrow>
           previous_node_ref (nodes workflow ! i) = trigger_ref (trigger workflow)
           \<or> (\<exists>j<i. ref (nodes workflow ! j) = previous_node_ref (nodes workflow ! i))"
proof -
  let ?p = "previous_node_ref (nodes workflow ! i)"
  let ?P = "[trigger_ref (trigger workflow) \<mapsto> TriggerSchema (trigger workflow)]"
  let ?xs = "earlier_schemas (nodes workflow) i"
  have bf: "branch_found (nodes workflow ! i) previous" for previous
    by (simp add: branch_found_def assms(2))
  have opt: "(case x of None \<Rightarrow> False | Some previous \<Rightarrow> True) \<longleftrightarrow> x \<noteq> None"
    for x :: "schema_node option"
    by (cases x) simp_all
  have "resolves workflow i
      \<longleftrightarrow> (case (?P ++ map_of (rev ?xs)) ?p of None \<Rightarrow> False | Some previous \<Rightarrow> True)"
    unfolding resolves_def resolves_from_def by (simp add: bf cong: option.case_cong)
  also have "\<dots> \<longleftrightarrow> (?P ++ map_of (rev ?xs)) ?p \<noteq> None"
    by (rule opt)
  also have "\<dots> \<longleftrightarrow> \<not> (?P ?p = None \<and> ?p \<notin> fst ` set ?xs)"
    unfolding latest_ref_None ..
  also have "fst ` set ?xs = ref ` set (take i (nodes workflow))"
    by (simp add: earlier_schemas_def image_image)
  also have "?p \<in> ref ` set (take i (nodes workflow)) \<longleftrightarrow> (\<exists>j<i. ref (nodes workflow ! j) = ?p)"
  proof
    assume "?p \<in> ref ` set (take i (nodes workflow))"
    then obtain n where n: "n \<in> set (take i (nodes workflow))" "ref n = ?p"
      by auto
    then obtain j where "j < length (take i (nodes workflow))" "take i (nodes workflow) ! j = n"
      by (auto simp: in_set_conv_nth)
    with n(2) show "\<exists>j<i. ref (nodes workflow ! j) = ?p"
      by (intro exI [of _ j]) simp
  next
    assume "\<exists>j<i. ref (nodes workflow ! j) = ?p"
    then obtain j where j: "j < i" "ref (nodes workflow ! j) = ?p"
      by blast
    with assms(1) have "nodes workflow ! j \<in> set (take i (nodes workflow))"
      by (auto simp: in_set_conv_nth intro!: exI [of _ j])
    with j(2) show "?p \<in> ref ` set (take i (nodes workflow))"
      by force
  qed
  finally show ?thesis
    by (auto split: if_splits)
qed

lemma create_nodes_progress:
  assumes "create_nodes ids user orm_wf ns s = (s', r)"
  shows "\<exists>k\<le>length ns.
           length (calls s') = length (calls s) + k
         \<and> length (created_nodes (calls s')) = length (created_nodes (calls s)) + k
         \<and> (\<forall>i<k. resolves_from (ref_schemas (node_mapping s)) ns i)
         \<and> (k < length ns \<longrightarrow> r \<noteq> None \<and> \<not> resolves_from (ref_schemas (node_mapping s)) ns k)
         \<and> (k = length ns \<longrightarrow> r = None)"
  using assms
proof (induction ns arbitrary: s)
  case Nil
  then show ?case by simp
next
  case (Cons node rest)
  show ?case
  proof (cases "to_orm_reference_node node (node_mapping s)")
    case (Inl e)
    with Cons.prems have "s' = s" "r = Some e" by simp_all
    moreover have "\<not> resolves_from (ref_schemas (node_mapping s)) (node # rest) 0"
      unfolding resolves_from_0
      using to_orm_reference_node_not_found [OF Inl] by auto
    ultimately show ?thesis
      by (intro exI [of _ 0]) simp
  next
    case (Inr p)
    obtain rid out where p: "p = (rid, out)" by (cases p)
    define orm_node where "orm_node =
      \<lparr>orm_id = ids (length (calls s)), node_type = node_type_str node, workflow_id = wf_id orm_wf,
       reference_node_id = Some rid, node_output = Some out, node_label = label node,
       service = to_orm_service_dict node\<rparr>"
    define s1 where "s1 =
      \<lparr>node_mapping = register (node_mapping s) (ref node) orm_node (NodeSchema node),
       calls = calls s @ [CreateNode user orm_node]\<rparr>"
    from Cons.prems Inr p have run: "create_nodes ids user orm_wf rest s1 = (s', r)"
      by (simp add: s1_def orm_node_def Let_def)
    have len1: "length (calls s1) = Suc (length (calls s))"
      by (simp add: s1_def)
    have cre1: "length (created_nodes (calls s1)) = Suc (length (created_nodes (calls s)))"
      by (simp add: s1_def created_nodes_append)
    have sch1: "ref_schemas (node_mapping s1)
        = (ref_schemas (node_mapping s))(ref node \<mapsto> NodeSchema node)"
      by (simp add: s1_def ref_schemas_register)
    have r0: "resolves_from (ref_schemas (node_mapping s)) (node # rest) 0"
      unfolding resolves_from_0
      using to_orm_reference_node_found [OF Inr] by auto
    from Cons.IH [OF run] obtain k where k: "k \<le> length rest"
      and l: "length (calls s') = length (calls s1) + k"
      and c: "length (created_nodes (calls s')) = length (created_nodes (calls s1)) + k"
      and res: "\<forall>i<k. resolves_from (ref_schemas (node_mapping s1)) rest i"
      and stop: "k < length rest \<longrightarrow>
                   r \<noteq> None \<and> \<not> resolves_from (ref_schemas (node_mapping s1)) rest k"
      and fin: "k = length rest \<longrightarrow> r = None"
      by blast
    have all: "resolves_from (ref_schemas (node_mapping s)) (node # rest) i" if "i < Suc k" for i
    proof (cases i)
      case 0
      then show ?thesis using r0 by simp
    next
      case (Suc i')
      with that have "i' < k" by simp
      with res have "resolves_from (ref_schemas (node_mapping s1)) rest i'" by simp
      then show ?thesis
        unfolding Suc resolves_from_Suc sch1 .
    qed
    show ?thesis
    proof (intro exI [of _ "Suc k"] conjI allI impI)
      show "Suc k \<le> length (node # rest)" using k by simp
      show "length (calls s') = length (calls s) + Suc k" using l len1 by simp
      show "length (created_nodes (calls s')) = length (created_nodes (calls s)) + Suc k"
        using c cre1 by simp
      show "resolves_from (ref_schemas (node_mapping s)) (node # rest) i" if "i < Suc k" for i
        using that by (rule all)
      show "r \<noteq> None" if "Suc k < length (node # rest)"
        using that stop by simp
      show "\<not> resolves_from (ref_schemas (node_mapping s)) (node # rest) (Suc k)"
        if "Suc k < length (node # rest)"
        unfolding resolves_from_Suc sch1 [symmetric] using that stop by simp
      show "r = None" if "Suc k = length (node # rest)"
        using that fin by simp
    qed
  qed
qed

subsection \<open>The AI field's task\<close>

lemma generate_values_all:
  "(\<And>row. row \<in> set rows \<Longrightarrow> \<exists>v. ai (ai_temperature field) (ai_message field row) = Inr v) \<Longrightarrow>
   generate_values ai field rows = (map (ai_message field) rows, Inr (map (with_ai_value ai field) rows))"
proof (induction rows)
  case Nil
  show ?case by simp
next
  case (Cons row rest)
  obtain v where v: "ai (ai_temperature field) (ai_message field row) = Inr v"
    using Cons.prems [of row] by auto
  have rest: "generate_values ai field rest
      = (map (ai_message field) rest, Inr (map (with_ai_value ai field) rest))"
    by (rule Cons.IH) (simp add: Cons.prems)
  have w: "with_ai_value ai field row = row\<lparr>cells := (cells row)(ai_field_id field \<mapsto> v)\<rparr>"
    by (simp add: with_ai_value_def ai_value_def v)
  show ?case
    using v by (simp add: rest w ai_message_def [symmetric] Let_def)
qed

lemma generate_values_first_error:
  "i < length rows \<Longrightarrow>
   ai (ai_temperature field) (ai_message field (rows ! i)) = Inl msg \<Longrightarrow>
   (\<And>j. j < i \<Longrightarrow> \<exists>v. ai (ai_temperature field) (ai_message field (rows ! j)) = Inr v) \<Longrightarrow>
   generate_values ai field rows = (map (ai_message field) (take (Suc i) rows), Inl msg)"
proof (induction rows arbitrary: i)
  case Nil
  then show ?case by simp
next
  case (Cons row rest)
  show ?case
  proof (cases i)
    case 0
    have "ai (ai_temperature field) (ai_message field row) = Inl msg"
      using Cons.prems(2) 0 by simp
    then show ?thesis
      by (simp add: 0 ai_message_def [symmetric] Let_def)
  next
    case (Suc k)
    obtain v where v: "ai (ai_temperature field) (ai_message field row) = Inr v"
      using Cons.prems(3) [of 0] Suc by auto
    have k: "k < length rest"
      using Cons.prems(1) Suc by simp
    have f: "ai (ai_temperature field) (ai_message field (rest ! k)) = Inl msg"
      using Cons.prems(2) Suc by simp
    have b: "\<exists>v. ai (ai_temperature field) (ai_message field (rest ! j)) = Inr v" if "j < k" for j
      using Cons.prems(3) [of "Suc j"] that Suc by simp
    have rest: "generate_values ai field rest = (map (ai_message field) (take (Suc k) rest), Inl msg)"
      using k f b by (rule Cons.IH)
    show ?thesis
      using v by (simp add: Suc rest ai_message_def [symmetric] Let_def)
  qed
qed

lemma find_updated_row:
  "distinct (map row_id tbl) \<Longrightarrow> (\<And>x. row_id (g x) = row_id x) \<Longrightarrow> row \<in> set tbl \<Longrightarrow>
   find (\<lambda>u. row_id u = row_id row) (map g (filter P tbl)) = (if P row then Some (g row) else None)"
proof (induction tbl)
  case Nil
  then show ?case by simp
next
  case (Cons x xs)
  have d: "distinct (map row_id xs)"
    using Cons.prems(1) by simp
  have nx: "row_id u \<noteq> row_id x" if "u \<in> set xs" for u
    using Cons.prems(1) that by (auto simp add: image_iff)
  show ?case
  proof (cases "row = x")
    case True
    have "find (\<lambda>u. row_id u = row_id x) (map g (filter P xs)) = None"
      using nx Cons.prems(2) by (auto simp add: find_None_iff)
    then show ?thesis
      using True Cons.prems(2) by simp
  next
    case False
    then have m: "row \<in> set xs"
      using Cons.prems(3) by simp
    then have ne: "row_id x \<noteq> row_id row"
      using nx [of row] by simp
    have "find (\<lambda>u. row_id u = row_id row) (map g (filter P xs)) = (if P row then Some (g row) else None)"
      using d Cons.prems(2) m by (rule Cons.IH)
    then show ?thesis
      using ne Cons.prems(2) by simp
  qed
qed

lemma store_rows_updated:
  assumes "distinct (map row_id tbl)" and "\<And>x. row_id (g x) = row_id x"
  shows "store_rows (map g (filter P tbl)) tbl = map (\<lambda>row. if P row then g row else row) tbl"
  unfolding store_rows_def
proof (rule map_cong [OF refl])
  fix row
  assume "row \<in> set tbl"
  then have "find (\<lambda>u. row_id u = row_id row) (map g (filter P tbl)) = (if P row then Some (g row) else None)"
    by (rule find_updated_row [OF assms])
  then show "(case find (\<lambda>u. row_id u = row_id row) (map g (filter P tbl)) of None \<Rightarrow> row | Some u \<Rightarrow> u)
      = (if P row then g row else row)"
    by simp
qed

lemma row_id_with_ai_value:
  "row_id (with_ai_value ai field x) = row_id x"
  by (simp add: with_ai_value_def)

lemma auto_update_field_tasks:
  "snd (auto_update_field us row_ids field) =
     (if ai_auto_update field \<and> auto_update_user_licensed us field
      then [(the (ai_auto_update_user_id field), ai_field_id field, row_ids)] else [])"
  by (simp add: auto_update_field_def auto_update_user_licensed_def split: option.split bool.split)

lemma auto_update_field_saved:
  "fst (auto_update_field us row_ids field) =
     (if ai_auto_update field \<and> \<not> auto_update_user_licensed us field
      then field\<lparr>ai_auto_update := False\<rparr> else field)"
  by (simp add: auto_update_field_def auto_update_user_licensed_def split: option.split bool.split)

lemma tasks_of_field:
  "distinct (map ai_field_id fs) \<Longrightarrow> field \<in> set fs \<Longrightarrow>
   filter (\<lambda>t. fst (snd t) = ai_field_id field)
     (concat (map (\<lambda>f. snd (auto_update_field us row_ids f)) fs))
   = snd (auto_update_field us row_ids field)"
proof (induction fs)
  case Nil
  then show ?case by simp
next
  case (Cons x xs)
  have d: "distinct (map ai_field_id xs)"
    using Cons.prems(1) by simp
  have nx: "ai_field_id u \<noteq> ai_field_id x" if "u \<in> set xs" for u
    using Cons.prems(1) that by (auto simp add: image_iff)
  have none: "filter (\<lambda>t. fst (snd t) = ai_field_id x)
      (concat (map (\<lambda>f. snd (auto_update_field us row_ids f)) xs)) = []"
    using nx by (auto simp add: filter_empty_conv auto_update_field_tasks split: if_splits)
  show ?case
  proof (cases "field = x")
    case True
    show ?thesis
      unfolding True using none by (simp add: auto_update_field_tasks)
  next
    case False
    then have m: "field \<in> set xs"
      using Cons.prems(2) by simp
    have ne: "ai_field_id x \<noteq> ai_field_id field"
      using nx [OF m] by simp
    have "filter (\<lambda>t. fst (snd t) = ai_field_id field)
        (concat (map (\<lambda>f. snd (auto_update_field us row_ids f)) xs))
        = snd (auto_update_field us row_ids field)"
      using d m by (rule Cons.IH)
    then show ?thesis
      using ne by (simp add: auto_update_field_tasks [of us row_ids x])
  qed
qed

section \<open>The claims\<close>

text \<open>
  C8. \<open>TriggerNodeCreate.to_orm_service_dict\<close> returns the five periodic-interval settings
  when the type is \<open>periodic\<close> and \<open>periodic_interval\<close> is set; a dictionary holding only
  \<open>table_id\<close> when the type is \<open>rows_created\<close>, \<open>rows_updated\<close> or \<open>rows_deleted\<close> and
  \<open>rows_triggers_settings\<close> is set; and the empty dictionary in every other case, which
  includes \<open>http_trigger\<close> and a type whose own settings object is absent.
\<close>

theorem trigger_to_orm_service_dict_cases:
  "(trigger_type self = periodic \<and> periodic_interval self = Some p \<longrightarrow>
      trigger_to_orm_service_dict self =
        [(''interval'', PStr (interval_str (interval p))),
         (''minute'', opt_int (minute p)),
         (''hour'', opt_int (hour p)),
         (''day_of_week'', opt_int (day_of_week p)),
         (''day_of_month'', opt_int (day_of_month p))])
   \<and> (trigger_type self \<in> {rows_created, rows_updated, rows_deleted}
        \<and> rows_triggers_settings self = Some r \<longrightarrow>
      trigger_to_orm_service_dict self = [(''table_id'', PInt (table_id r))])
   \<and> (\<not> (trigger_type self = periodic \<and> periodic_interval self \<noteq> None)
        \<and> \<not> (trigger_type self \<in> {rows_created, rows_updated, rows_deleted}
               \<and> rows_triggers_settings self \<noteq> None) \<longrightarrow>
      trigger_to_orm_service_dict self = [])
   \<and> (trigger_type self = http_trigger \<longrightarrow> trigger_to_orm_service_dict self = [])"
  by (cases "trigger_type self")
     (auto simp: trigger_to_orm_service_dict_def periodic_model_dump_def rows_model_dump_def
           split: option.splits bool.splits)

theorem trigger_to_orm_service_dict_cases_witness:
  "trigger_to_orm_service_dict
     \<lparr>trigger_ref = ''t'', trigger_label = ''Every hour'', trigger_type = periodic,
      periodic_interval = Some \<lparr>interval = HOUR, minute = Some 30, hour = Some 0,
                                day_of_week = None, day_of_month = Some 1\<rparr>,
      rows_triggers_settings = None\<rparr>
     = [(''interval'', PStr ''HOUR''), (''minute'', PInt 30), (''hour'', PInt 0),
        (''day_of_week'', PNone), (''day_of_month'', PInt 1)]
   \<and> trigger_to_orm_service_dict
     \<lparr>trigger_ref = ''t'', trigger_label = ''Rows'', trigger_type = rows_updated,
      periodic_interval = None, rows_triggers_settings = Some \<lparr>table_id = 7\<rparr>\<rparr>
     = [(''table_id'', PInt 7)]
   \<and> trigger_to_orm_service_dict
     \<lparr>trigger_ref = ''t'', trigger_label = ''Periodic'', trigger_type = periodic,
      periodic_interval = None, rows_triggers_settings = Some \<lparr>table_id = 7\<rparr>\<rparr>
     = []
   \<and> trigger_to_orm_service_dict
     \<lparr>trigger_ref = ''t'', trigger_label = ''Hook'', trigger_type = http_trigger,
      periodic_interval = None, rows_triggers_settings = Some \<lparr>table_id = 7\<rparr>\<rparr>
     = []"
proof (intro conjI)
  show "trigger_to_orm_service_dict
     \<lparr>trigger_ref = ''t'', trigger_label = ''Every hour'', trigger_type = periodic,
      periodic_interval = Some \<lparr>interval = HOUR, minute = Some 30, hour = Some 0,
                                day_of_week = None, day_of_month = Some 1\<rparr>,
      rows_triggers_settings = None\<rparr>
     = [(''interval'', PStr ''HOUR''), (''minute'', PInt 30), (''hour'', PInt 0),
        (''day_of_week'', PNone), (''day_of_month'', PInt 1)]"
  using trigger_to_orm_service_dict_cases
          [of "\<lparr>trigger_ref = ''t'', trigger_label = ''Every hour'', trigger_type = periodic,
                periodic_interval = Some \<lparr>interval = HOUR, minute = Some 30, hour = Some 0,
                                          day_of_week = None, day_of_month = Some 1\<rparr>,
                rows_triggers_settings = None\<rparr>"
              "\<lparr>interval = HOUR, minute = Some 30, hour = Some 0,
                day_of_week = None, day_of_month = Some 1\<rparr>"]
  by (simp add: opt_int_def)
  show "trigger_to_orm_service_dict
     \<lparr>trigger_ref = ''t'', trigger_label = ''Rows'', trigger_type = rows_updated,
      periodic_interval = None, rows_triggers_settings = Some \<lparr>table_id = 7\<rparr>\<rparr>
     = [(''table_id'', PInt 7)]"
  using        trigger_to_orm_service_dict_cases
          [of "\<lparr>trigger_ref = ''t'', trigger_label = ''Rows'', trigger_type = rows_updated,
                periodic_interval = None, rows_triggers_settings = Some \<lparr>table_id = 7\<rparr>\<rparr>"
              _ "\<lparr>table_id = 7\<rparr>"]
  by simp
  show "trigger_to_orm_service_dict
     \<lparr>trigger_ref = ''t'', trigger_label = ''Periodic'', trigger_type = periodic,
      periodic_interval = None, rows_triggers_settings = Some \<lparr>table_id = 7\<rparr>\<rparr>
     = []"
  using         trigger_to_orm_service_dict_cases
          [of "\<lparr>trigger_ref = ''t'', trigger_label = ''Periodic'', trigger_type = periodic,
                periodic_interval = None, rows_triggers_settings = Some \<lparr>table_id = 7\<rparr>\<rparr>"]
  by simp
  show "trigger_to_orm_service_dict
     \<lparr>trigger_ref = ''t'', trigger_label = ''Hook'', trigger_type = http_trigger,
      periodic_interval = None, rows_triggers_settings = Some \<lparr>table_id = 7\<rparr>\<rparr>
     = []"
  using 
        trigger_to_orm_service_dict_cases
          [of "\<lparr>trigger_ref = ''t'', trigger_label = ''Hook'', trigger_type = http_trigger,
                periodic_interval = None, rows_triggers_settings = Some \<lparr>table_id = 7\<rparr>\<rparr>"]
  by simp
qed

text \<open>
  C10. \<open>get_workflow\<close> returns the workflow the workflow service gave exactly when that
  workflow's automation is in the given workspace, and raises \<open>ValueError\<close> otherwise;
  whatever it returns is a workflow of the given workspace.
\<close>

theorem get_workflow_checks_workspace:
  "(get_workflow svc wid user workspace_id = Inr w \<longrightarrow>
      svc user wid = Inr w \<and> found_workspace_id w = workspace_id)
   \<and> (svc user wid = Inr workflow \<longrightarrow>
        (if found_workspace_id workflow = workspace_id
         then get_workflow svc wid user workspace_id = Inr workflow
         else get_workflow svc wid user workspace_id = Inl (ValueError ''Workflow not in workspace'')))"
  by (auto simp: get_workflow_def split: sum.splits if_splits)

theorem get_workflow_checks_workspace_witness:
  "get_workflow (\<lambda>u w. Inr \<lparr>found_id = w, found_workspace_id = 3\<rparr>) 10 1 3
     = Inr \<lparr>found_id = 10, found_workspace_id = 3\<rparr>
   \<and> get_workflow (\<lambda>u w. Inr \<lparr>found_id = w, found_workspace_id = 3\<rparr>) 10 1 4
     = Inl (ValueError ''Workflow not in workspace'')"
proof
  show "get_workflow (\<lambda>u w. Inr \<lparr>found_id = w, found_workspace_id = 3\<rparr>) 10 1 3
     = Inr \<lparr>found_id = 10, found_workspace_id = 3\<rparr>"
    using get_workflow_checks_workspace
          [of "\<lambda>u w. Inr \<lparr>found_id = w, found_workspace_id = 3\<rparr>" 10 1 3
              "\<lparr>found_id = 10, found_workspace_id = 3\<rparr>"
              "\<lparr>found_id = 10, found_workspace_id = 3\<rparr>"]
    by simp
  show "get_workflow (\<lambda>u w. Inr \<lparr>found_id = w, found_workspace_id = 3\<rparr>) 10 1 4
     = Inl (ValueError ''Workflow not in workspace'')"
    using get_workflow_checks_workspace
          [of "\<lambda>u w. Inr \<lparr>found_id = w, found_workspace_id = 3\<rparr>" 10 1 4
              "\<lparr>found_id = 10, found_workspace_id = 3\<rparr>"
              "\<lparr>found_id = 10, found_workspace_id = 3\<rparr>"]
    by simp
qed

text \<open>
  C3. With a previous node found in the mapping: when \<open>router_edge_label\<close> is not empty
  and the previous node is a router, the output is the \<open>uid\<close> of the first branch of the
  router with that label, which is the \<open>uid\<close> the router's own service dictionary gives
  that branch, and a \<open>ValueError\<close> is raised when no branch has the label; when
  \<open>router_edge_label\<close> is empty or the previous node is not a router, the output is the
  empty string.
\<close>

theorem to_orm_reference_node_output:
  assumes "mapping (RefKey (previous_node_ref self)) = Some (previous_orm_node, previous_node_create)"
  shows "(router_edge_label self \<noteq> [] \<and> schema_type previous_node_create = ''router'' \<longrightarrow>
            (\<forall>i<length (schema_edges previous_node_create).
               edge_label (schema_edges previous_node_create ! i) = router_edge_label self
               \<and> (\<forall>j<i. edge_label (schema_edges previous_node_create ! j) \<noteq> router_edge_label self)
               \<longrightarrow> to_orm_reference_node self mapping
                     = Inr (orm_id previous_orm_node, uid (schema_edges previous_node_create ! i))
                   \<and> (\<exists>n ds. previous_node_create = NodeSchema n
                        \<and> to_orm_service_dict n = [(''edges'', PList ds)]
                        \<and> ds ! i = PDict [(''uid'', PStr (uid (schema_edges previous_node_create ! i))),
                                          (''label'', PStr (router_edge_label self))]))
            \<and> ((\<forall>e\<in>set (schema_edges previous_node_create). edge_label e \<noteq> router_edge_label self)
               \<longrightarrow> to_orm_reference_node self mapping
                     = Inl (ValueError (''Branch label '' @ quoted (router_edge_label self)
                                        @ '' not found in previous router node''))))
       \<and> (router_edge_label self = [] \<or> schema_type previous_node_create \<noteq> ''router'' \<longrightarrow>
            to_orm_reference_node self mapping = Inr (orm_id previous_orm_node, []))"
proof (intro conjI impI allI)
  fix i
  let ?es = "schema_edges previous_node_create"
  let ?l = "router_edge_label self"
  assume r: "?l \<noteq> [] \<and> schema_type previous_node_create = ''router''"
  assume i: "i < length ?es"
  assume f: "edge_label (?es ! i) = ?l \<and> (\<forall>j<i. edge_label (?es ! j) \<noteq> ?l)"
  from i f have "find (\<lambda>edge. edge_label edge = ?l) ?es = Some (?es ! i)"
    unfolding find_Some_iff by blast
  with assms r
  show "to_orm_reference_node self mapping = Inr (orm_id previous_orm_node, uid (?es ! i))"
    by (simp add: to_orm_reference_node_def)
  from r obtain n edges where n: "previous_node_create = NodeSchema n" "config n = Router edges"
    unfolding schema_type_router by blast
  with i f
  show "\<exists>n ds. previous_node_create = NodeSchema n
          \<and> to_orm_service_dict n = [(''edges'', PList ds)]
          \<and> ds ! i = PDict [(''uid'', PStr (uid (?es ! i))), (''label'', PStr ?l)]"
    by (simp add: to_orm_service_dict_def edge_to_orm_service_dict_def)
next
  let ?es = "schema_edges previous_node_create"
  let ?l = "router_edge_label self"
  assume r: "?l \<noteq> [] \<and> schema_type previous_node_create = ''router''"
  assume "\<forall>e\<in>set ?es. edge_label e \<noteq> ?l"
  then have "find (\<lambda>edge. edge_label edge = ?l) ?es = None"
    unfolding find_None_iff by blast
  with assms r
  show "to_orm_reference_node self mapping
          = Inl (ValueError (''Branch label '' @ quoted ?l @ '' not found in previous router node''))"
    by (simp add: to_orm_reference_node_def)
next
  assume "router_edge_label self = [] \<or> schema_type previous_node_create \<noteq> ''router''"
  with assms show "to_orm_reference_node self mapping = Inr (orm_id previous_orm_node, [])"
    by (auto simp: to_orm_reference_node_def)
qed

theorem to_orm_reference_node_output_witness:
  "to_orm_reference_node (ex_after ''yes'') [RefKey ''r'' \<mapsto> (ex_router_orm, NodeSchema ex_router)]
     = Inr (5, ''u1'')
   \<and> to_orm_reference_node (ex_after ''maybe'') [RefKey ''r'' \<mapsto> (ex_router_orm, NodeSchema ex_router)]
     = Inl (ValueError (''Branch label '' @ quoted ''maybe'' @ '' not found in previous router node''))
   \<and> to_orm_reference_node (ex_after []) [RefKey ''r'' \<mapsto> (ex_router_orm, NodeSchema ex_router)]
     = Inr (5, [])"
proof -
  let ?m = "[RefKey ''r'' \<mapsto> (ex_router_orm, NodeSchema ex_router)]"
  have m: "?m (RefKey (previous_node_ref (ex_after l))) = Some (ex_router_orm, NodeSchema ex_router)" for l
    by (simp add: ex_after_def)
  have r: "schema_type (NodeSchema ex_router) = ''router''"
    by (simp add: ex_router_def node_type_str_def)
  have e: "schema_edges (NodeSchema ex_router) =
             [\<lparr>edge_label = ''no'', condition = [], uid = ''u0''\<rparr>,
              \<lparr>edge_label = ''yes'', condition = [], uid = ''u1''\<rparr>,
              \<lparr>edge_label = ''yes'', condition = [], uid = ''u2''\<rparr>]"
    by (simp add: ex_router_def)
  have l: "router_edge_label (ex_after l) = l" for l
    by (simp add: ex_after_def)
  have o: "orm_id ex_router_orm = 5"
    by (simp add: ex_router_orm_def)
  note t = to_orm_reference_node_output
             [where mapping = ?m and previous_orm_node = ex_router_orm
                and previous_node_create = "NodeSchema ex_router", OF m]
  have s1: "router_edge_label (ex_after l) \<noteq> [] \<and> schema_type (NodeSchema ex_router) = ''router''"
    if "l \<noteq> []" for l
    using that r by (simp only: l simp_thms)
  have p1: "1 < length (schema_edges (NodeSchema ex_router))"
    by (simp add: ex_router_def)
  have p2: "edge_label (schema_edges (NodeSchema ex_router) ! 1) = router_edge_label (ex_after ''yes'')
        \<and> (\<forall>j<1. edge_label (schema_edges (NodeSchema ex_router) ! j) \<noteq> router_edge_label (ex_after ''yes''))"
    by (simp add: ex_router_def l)
  have y: "''yes'' \<noteq> []" and n: "''maybe'' \<noteq> []"
    by simp_all
  note found = t [of "''yes''", THEN conjunct1, rule_format, OF s1 [OF y],
                  THEN conjunct1, rule_format, OF p1 p2, THEN conjunct1]
  have a: "to_orm_reference_node (ex_after ''yes'') ?m = Inr (5, ''u1'')"
    using found by (simp add: ex_router_def o)
  have p3: "\<forall>e\<in>set (schema_edges (NodeSchema ex_router)). edge_label e \<noteq> router_edge_label (ex_after ''maybe'')"
    by (simp add: ex_router_def l)
  note missing = t [of "''maybe''", THEN conjunct1, rule_format, OF s1 [OF n],
                    THEN conjunct2, THEN mp, OF p3]
  have b: "to_orm_reference_node (ex_after ''maybe'') ?m
             = Inl (ValueError (''Branch label '' @ quoted ''maybe'' @ '' not found in previous router node''))"
    using missing by (simp only: l)
  from t [of "[]"]
  have c: "to_orm_reference_node (ex_after []) ?m = Inr (5, [])"
    by (simp add: l o)
  from a b c show ?thesis by simp
qed

text \<open>
  C1. \<open>create_workflow\<close> first creates the workflow record, then the trigger node without a
  reference node, then the nodes of \<open>workflow.nodes\<close> in list order, up to the first node
  that raises (all of them when the workflow is returned). Every node call carries as
  \<open>reference_node_id\<close> the ORM id of the node created before it whose ref equals the node's
  \<open>previous_node_ref\<close>: the trigger, or the latest earlier node of the list with that ref.
  \<open>trace\<close> is the list of service calls made, \<open>k\<close> the number of list nodes created.
  The loop goes on exactly as long as the nodes resolve: every created node resolves, the
  node at which the loop stops does not, and when every node of the list resolves, every
  node is created and the workflow is returned.
\<close>

theorem create_workflow_call_order:
  assumes "create_workflow ids user automation_id workflow = (trace, res)"
  shows "\<exists>k\<le>length (nodes workflow).
      length trace = k + 2
    \<and> (res = Inr \<lparr>wf_id = ids 0, wf_automation_id = automation_id, wf_name = name workflow\<rparr>
          \<and> k = length (nodes workflow)
        \<or> (\<exists>e. res = Inl e) \<and> k < length (nodes workflow))
    \<and> trace ! 0 = CreateWorkflow user
                   \<lparr>wf_id = ids 0, wf_automation_id = automation_id, wf_name = name workflow\<rparr>
    \<and> trace ! 1 = CreateNode user
                   \<lparr>orm_id = ids 1,
                    node_type = trigger_type_str (trigger_type (trigger workflow)),
                    workflow_id = ids 0,
                    reference_node_id = None,
                    node_output = None,
                    node_label = trigger_label (trigger workflow),
                    service = trigger_to_orm_service_dict (trigger workflow)\<rparr>
    \<and> (\<forall>i<k. \<exists>n. trace ! (i + 2) = CreateNode user n
          \<and> orm_id n = ids (i + 2)
          \<and> node_type n = node_type_str (nodes workflow ! i)
          \<and> workflow_id n = ids 0
          \<and> node_label n = label (nodes workflow ! i)
          \<and> service n = to_orm_service_dict (nodes workflow ! i)
          \<and> (reference_node_id n = Some (ids 1)
                \<and> trigger_ref (trigger workflow) = previous_node_ref (nodes workflow ! i)
                \<and> (\<forall>j<i. ref (nodes workflow ! j) \<noteq> previous_node_ref (nodes workflow ! i))
              \<or> (\<exists>j<i. reference_node_id n = Some (ids (j + 2))
                    \<and> ref (nodes workflow ! j) = previous_node_ref (nodes workflow ! i)
                    \<and> (\<forall>j'<i. j < j' \<longrightarrow>
                          ref (nodes workflow ! j') \<noteq> previous_node_ref (nodes workflow ! i)))))
    \<and> (\<forall>i<k. resolves workflow i)
    \<and> (k < length (nodes workflow) \<longrightarrow> \<not> resolves workflow k)
    \<and> ((\<forall>i<length (nodes workflow). resolves workflow i) \<longrightarrow>
          k = length (nodes workflow)
          \<and> res = Inr \<lparr>wf_id = ids 0, wf_automation_id = automation_id, wf_name = name workflow\<rparr>)"
proof -
  let ?s0 = "after_trigger ids user automation_id workflow"
  let ?ns = "nodes workflow"
  let ?wf = "new_workflow ids automation_id workflow"
  from assms obtain s r where run: "run_workflow ids user automation_id workflow = (s, r)"
    and trace: "trace = calls s"
    and res: "res = (case r of Some e \<Rightarrow> Inl e | None \<Rightarrow> Inr ?wf)"
    by (rule create_workflow_run)
  from run have cn: "create_nodes ids user ?wf ?ns ?s0 = (s, r)"
    by (simp add: run_workflow_def)
  from create_nodes_trace [OF cn] obtain k where k: "k \<le> length ?ns"
    and len: "length (calls s) = length (calls ?s0) + k"
    and pre: "take (length (calls ?s0)) (calls s) = calls ?s0"
    and ok: "r = None \<longrightarrow> k = length ?ns"
    and err: "\<forall>e. r = Some e \<longrightarrow> k < length ?ns"
    and made: "\<forall>i<k. \<exists>n. calls s ! (length (calls ?s0) + i) = CreateNode user n
               \<and> orm_id n = ids (length (calls ?s0) + i)
               \<and> node_type n = node_type_str (?ns ! i)
               \<and> workflow_id n = wf_id ?wf
               \<and> node_label n = label (?ns ! i)
               \<and> service n = to_orm_service_dict (?ns ! i)
               \<and> reference_node_id n
                    = (ref_ids (node_mapping ?s0) ++ map_of (rev (earlier_refs ids (length (calls ?s0)) ?ns i)))
                        (previous_node_ref (?ns ! i))
               \<and> reference_node_id n \<noteq> None"
    by blast
  have l0: "length (calls ?s0) = 2"
    by (simp add: calls_after_trigger)
  have first: "trace ! 0 = CreateWorkflow user ?wf" and second: "trace ! 1 = CreateNode user (new_trigger ids workflow)"
  proof -
    have "trace ! 0 = take (length (calls ?s0)) (calls s) ! 0" "trace ! 1 = take (length (calls ?s0)) (calls s) ! 1"
      by (simp_all add: l0 trace)
    then show "trace ! 0 = CreateWorkflow user ?wf" "trace ! 1 = CreateNode user (new_trigger ids workflow)"
      unfolding pre by (simp_all add: calls_after_trigger)
  qed
  have nodes: "\<exists>n. trace ! (i + 2) = CreateNode user n
          \<and> orm_id n = ids (i + 2)
          \<and> node_type n = node_type_str (?ns ! i)
          \<and> workflow_id n = ids 0
          \<and> node_label n = label (?ns ! i)
          \<and> service n = to_orm_service_dict (?ns ! i)
          \<and> (reference_node_id n = Some (ids 1)
                \<and> trigger_ref (trigger workflow) = previous_node_ref (?ns ! i)
                \<and> (\<forall>j<i. ref (?ns ! j) \<noteq> previous_node_ref (?ns ! i))
              \<or> (\<exists>j<i. reference_node_id n = Some (ids (j + 2))
                    \<and> ref (?ns ! j) = previous_node_ref (?ns ! i)
                    \<and> (\<forall>j'<i. j < j' \<longrightarrow> ref (?ns ! j') \<noteq> previous_node_ref (?ns ! i))))"
    if i: "i < k" for i
  proof -
    let ?p = "previous_node_ref (?ns ! i)"
    let ?xs = "earlier_refs ids 2 ?ns i"
    from i k have il: "i \<le> length ?ns" by simp
    from made i obtain n where n: "calls s ! (2 + i) = CreateNode user n"
        "orm_id n = ids (2 + i)" "node_type n = node_type_str (?ns ! i)"
        "workflow_id n = wf_id ?wf" "node_label n = label (?ns ! i)"
        "service n = to_orm_service_dict (?ns ! i)"
        "reference_node_id n = ([trigger_ref (trigger workflow) \<mapsto> ids 1] ++ map_of (rev ?xs)) ?p"
        "reference_node_id n \<noteq> None"
      unfolding l0 ref_ids_after_trigger by blast
    from n(8) obtain v where rv: "reference_node_id n = Some v"
      by blast
    with n(7) have v: "([trigger_ref (trigger workflow) \<mapsto> ids 1] ++ map_of (rev ?xs)) ?p = Some v"
      "reference_node_id n = Some v"
      by simp_all
    from latest_ref_cases [OF v(1)]
    have "reference_node_id n = Some (ids 1)
                \<and> trigger_ref (trigger workflow) = ?p
                \<and> (\<forall>j<i. ref (?ns ! j) \<noteq> ?p)
              \<or> (\<exists>j<i. reference_node_id n = Some (ids (j + 2))
                    \<and> ref (?ns ! j) = ?p
                    \<and> (\<forall>j'<i. j < j' \<longrightarrow> ref (?ns ! j') \<noteq> ?p))"
    proof
      assume a: "[trigger_ref (trigger workflow) \<mapsto> ids 1] ?p = Some v \<and> (\<forall>j<length ?xs. fst (?xs ! j) \<noteq> ?p)"
      then have "trigger_ref (trigger workflow) = ?p" "v = ids 1"
        by (auto split: if_splits)
      moreover from a il have "\<forall>j<i. ref (?ns ! j) \<noteq> ?p"
        by (simp add: length_earlier_refs nth_earlier_refs)
      ultimately show ?thesis using v(2) by simp
    next
      assume "\<exists>j<length ?xs. ?xs ! j = (?p, v) \<and> (\<forall>j'<length ?xs. j < j' \<longrightarrow> fst (?xs ! j') \<noteq> ?p)"
      then obtain j where j: "j < i" "?xs ! j = (?p, v)" "\<forall>j'<i. j < j' \<longrightarrow> fst (?xs ! j') \<noteq> ?p"
        using il by (auto simp: length_earlier_refs)
      from j(1,2) il have "ref (?ns ! j) = ?p" "v = ids (2 + j)"
        by (simp_all add: nth_earlier_refs)
      moreover from j(3) il have "\<forall>j'<i. j < j' \<longrightarrow> ref (?ns ! j') \<noteq> ?p"
        by (simp add: nth_earlier_refs)
      ultimately show ?thesis
        using v(2) j(1) by (intro disjI2 exI [of _ j]) (simp add: add.commute)
    qed
    with n show ?thesis
      by (intro exI [of _ n]) (simp add: trace add.commute new_workflow_def)
  qed
  have result: "res = Inr \<lparr>wf_id = ids 0, wf_automation_id = automation_id, wf_name = name workflow\<rparr>
          \<and> k = length ?ns
        \<or> (\<exists>e. res = Inl e) \<and> k < length ?ns"
    using res ok err by (cases r) (simp_all add: new_workflow_def)
  from create_nodes_progress [OF cn] obtain k' where
        len': "length (calls s) = length (calls ?s0) + k'"
    and res': "\<forall>i<k'. resolves_from (ref_schemas (node_mapping ?s0)) ?ns i"
    and stop': "k' < length ?ns \<longrightarrow>
                  r \<noteq> None \<and> \<not> resolves_from (ref_schemas (node_mapping ?s0)) ?ns k'"
    by blast
  from len len' have kk: "k' = k"
    by simp
  have prog1: "\<forall>i<k. resolves workflow i"
    using res' unfolding kk ref_schemas_after_trigger resolves_def .
  have prog2: "k < length ?ns \<longrightarrow> \<not> resolves workflow k"
    using stop' unfolding kk ref_schemas_after_trigger resolves_def by simp
  have prog3: "(\<forall>i<length ?ns. resolves workflow i) \<longrightarrow>
          k = length ?ns
          \<and> res = Inr \<lparr>wf_id = ids 0, wf_automation_id = automation_id, wf_name = name workflow\<rparr>"
  proof
    assume a: "\<forall>i<length ?ns. resolves workflow i"
    have "\<not> k < length ?ns"
    proof
      assume b: "k < length ?ns"
      with a have "resolves workflow k" by simp
      moreover from prog2 b have "\<not> resolves workflow k" by simp
      ultimately show False by simp
    qed
    with k have "k = length ?ns" by simp
    with result show "k = length ?ns
          \<and> res = Inr \<lparr>wf_id = ids 0, wf_automation_id = automation_id, wf_name = name workflow\<rparr>"
      by simp
  qed
  have old: "length trace = k + 2
    \<and> (res = Inr \<lparr>wf_id = ids 0, wf_automation_id = automation_id, wf_name = name workflow\<rparr>
          \<and> k = length (nodes workflow)
        \<or> (\<exists>e. res = Inl e) \<and> k < length (nodes workflow))
    \<and> trace ! 0 = CreateWorkflow user
                   \<lparr>wf_id = ids 0, wf_automation_id = automation_id, wf_name = name workflow\<rparr>
    \<and> trace ! 1 = CreateNode user
                   \<lparr>orm_id = ids 1,
                    node_type = trigger_type_str (trigger_type (trigger workflow)),
                    workflow_id = ids 0,
                    reference_node_id = None,
                    node_output = None,
                    node_label = trigger_label (trigger workflow),
                    service = trigger_to_orm_service_dict (trigger workflow)\<rparr>
    \<and> (\<forall>i<k. \<exists>n. trace ! (i + 2) = CreateNode user n
          \<and> orm_id n = ids (i + 2)
          \<and> node_type n = node_type_str (nodes workflow ! i)
          \<and> workflow_id n = ids 0
          \<and> node_label n = label (nodes workflow ! i)
          \<and> service n = to_orm_service_dict (nodes workflow ! i)
          \<and> (reference_node_id n = Some (ids 1)
                \<and> trigger_ref (trigger workflow) = previous_node_ref (nodes workflow ! i)
                \<and> (\<forall>j<i. ref (nodes workflow ! j) \<noteq> previous_node_ref (nodes workflow ! i))
              \<or> (\<exists>j<i. reference_node_id n = Some (ids (j + 2))
                    \<and> ref (nodes workflow ! j) = previous_node_ref (nodes workflow ! i)
                    \<and> (\<forall>j'<i. j < j' \<longrightarrow>
                          ref (nodes workflow ! j') \<noteq> previous_node_ref (nodes workflow ! i)))))"
    using len l0 trace result first second nodes
    by (simp add: new_workflow_def new_trigger_def)
  have "k \<le> length (nodes workflow) \<and> (length trace = k + 2
    \<and> (res = Inr \<lparr>wf_id = ids 0, wf_automation_id = automation_id, wf_name = name workflow\<rparr>
          \<and> k = length (nodes workflow)
        \<or> (\<exists>e. res = Inl e) \<and> k < length (nodes workflow))
    \<and> trace ! 0 = CreateWorkflow user
                   \<lparr>wf_id = ids 0, wf_automation_id = automation_id, wf_name = name workflow\<rparr>
    \<and> trace ! 1 = CreateNode user
                   \<lparr>orm_id = ids 1,
                    node_type = trigger_type_str (trigger_type (trigger workflow)),
                    workflow_id = ids 0,
                    reference_node_id = None,
                    node_output = None,
                    node_label = trigger_label (trigger workflow),
                    service = trigger_to_orm_service_dict (trigger workflow)\<rparr>
    \<and> (\<forall>i<k. \<exists>n. trace ! (i + 2) = CreateNode user n
          \<and> orm_id n = ids (i + 2)
          \<and> node_type n = node_type_str (nodes workflow ! i)
          \<and> workflow_id n = ids 0
          \<and> node_label n = label (nodes workflow ! i)
          \<and> service n = to_orm_service_dict (nodes workflow ! i)
          \<and> (reference_node_id n = Some (ids 1)
                \<and> trigger_ref (trigger workflow) = previous_node_ref (nodes workflow ! i)
                \<and> (\<forall>j<i. ref (nodes workflow ! j) \<noteq> previous_node_ref (nodes workflow ! i))
              \<or> (\<exists>j<i. reference_node_id n = Some (ids (j + 2))
                    \<and> ref (nodes workflow ! j) = previous_node_ref (nodes workflow ! i)
                    \<and> (\<forall>j'<i. j < j' \<longrightarrow>
                          ref (nodes workflow ! j') \<noteq> previous_node_ref (nodes workflow ! i)))))
    \<and> (\<forall>i<k. resolves workflow i)
    \<and> (k < length (nodes workflow) \<longrightarrow> \<not> resolves workflow k)
    \<and> ((\<forall>i<length (nodes workflow). resolves workflow i) \<longrightarrow>
          k = length (nodes workflow)
          \<and> res = Inr \<lparr>wf_id = ids 0, wf_automation_id = automation_id, wf_name = name workflow\<rparr>))"
    using k old [THEN conjunct1] old [THEN conjunct2, THEN conjunct1]
      old [THEN conjunct2, THEN conjunct2, THEN conjunct1]
      old [THEN conjunct2, THEN conjunct2, THEN conjunct2, THEN conjunct1]
      old [THEN conjunct2, THEN conjunct2, THEN conjunct2, THEN conjunct2]
      prog1 prog2 prog3
    by (intro conjI) assumption+
  then show ?thesis
    by (rule exI [of _ k])
qed

theorem create_workflow_call_order_witness:
  "create_workflow int 1 2 ex_chain = (ex_chain_calls, Inr ex_chain_workflow)
   \<and> resolves ex_chain 0
   \<and> resolves ex_chain 1
   \<and> (\<exists>k\<le>length (nodes ex_chain).
      length ex_chain_calls = k + 2
    \<and> ((Inr ex_chain_workflow :: error + AutomationWorkflow) = Inr \<lparr>wf_id = int 0, wf_automation_id = 2, wf_name = name ex_chain\<rparr>
          \<and> k = length (nodes ex_chain)
        \<or> (\<exists>e. (Inr ex_chain_workflow :: error + AutomationWorkflow) = Inl e) \<and> k < length (nodes ex_chain))
    \<and> ex_chain_calls ! 0 = CreateWorkflow 1
                   \<lparr>wf_id = int 0, wf_automation_id = 2, wf_name = name ex_chain\<rparr>
    \<and> ex_chain_calls ! 1 = CreateNode 1
                   \<lparr>orm_id = int 1,
                    node_type = trigger_type_str (trigger_type (trigger ex_chain)),
                    workflow_id = int 0,
                    reference_node_id = None,
                    node_output = None,
                    node_label = trigger_label (trigger ex_chain),
                    service = trigger_to_orm_service_dict (trigger ex_chain)\<rparr>
    \<and> (\<forall>i<k. \<exists>n. ex_chain_calls ! (i + 2) = CreateNode 1 n
          \<and> orm_id n = int (i + 2)
          \<and> node_type n = node_type_str (nodes ex_chain ! i)
          \<and> workflow_id n = int 0
          \<and> node_label n = label (nodes ex_chain ! i)
          \<and> service n = to_orm_service_dict (nodes ex_chain ! i)
          \<and> (reference_node_id n = Some (int 1)
                \<and> trigger_ref (trigger ex_chain) = previous_node_ref (nodes ex_chain ! i)
                \<and> (\<forall>j<i. ref (nodes ex_chain ! j) \<noteq> previous_node_ref (nodes ex_chain ! i))
              \<or> (\<exists>j<i. reference_node_id n = Some (int (j + 2))
                    \<and> ref (nodes ex_chain ! j) = previous_node_ref (nodes ex_chain ! i)
                    \<and> (\<forall>j'<i. j < j' \<longrightarrow>
                          ref (nodes ex_chain ! j') \<noteq> previous_node_ref (nodes ex_chain ! i)))))
    \<and> (\<forall>i<k. resolves ex_chain i)
    \<and> (k < length (nodes ex_chain) \<longrightarrow> \<not> resolves ex_chain k)
    \<and> ((\<forall>i<length (nodes ex_chain). resolves ex_chain i) \<longrightarrow>
          k = length (nodes ex_chain)
          \<and> (Inr ex_chain_workflow :: error + AutomationWorkflow)
              = Inr \<lparr>wf_id = int 0, wf_automation_id = 2, wf_name = name ex_chain\<rparr>))"
proof -
  have h: "create_workflow int 1 2 ex_chain = (ex_chain_calls, Inr ex_chain_workflow)"
    by (simp add: ex_chain_def ex_chain_calls_def ex_chain_workflow_def ex_chain_trigger_def
          ex_chain_node_def ex_update_row_def ex_workflow_def ex_rows_trigger_def
          create_workflow_def run_workflow_def after_trigger_def new_workflow_def new_trigger_def
          register_def to_orm_reference_node_def trigger_to_orm_service_dict_def
          to_orm_service_dict_def node_type_str_def Let_def)
  have r0: "resolves ex_chain 0" and r1: "resolves ex_chain 1"
    by (simp_all add: resolves_def resolves_from_def earlier_schemas_def branch_found_def
          ex_chain_def ex_workflow_def ex_update_row_def ex_rows_trigger_def)
  show ?thesis
    by (intro conjI h r0 r1 create_workflow_call_order [OF h])
qed

text \<open>
  C2 (as amended). For every \<open>create_row\<close> and \<open>update_row\<close> action node the service
  dictionary holds the table id and nothing else; the node-creation call receives that
  dictionary as \<open>service\<close>, beside the node type, the workflow, the reference node id,
  the output and the label. The values to write and the row identifier are not part of the
  call. The counterexample shows the call made for an update-row action with a row and a
  value.
\<close>

theorem row_action_service_dict_only_table_id:
  assumes "config node = CreateRowAction tid vals \<or> config node = UpdateRowAction tid row vals"
      and "to_orm_reference_node node (node_mapping s) = Inr (ref_id, out)"
  shows "to_orm_service_dict node = [(''table_id'', PInt tid)]
         \<and> calls (fst (create_nodes ids user orm_wf [node] s))
             = calls s @ [CreateNode user
                            \<lparr>orm_id = ids (length (calls s)),
                             node_type = node_type_str node,
                             workflow_id = wf_id orm_wf,
                             reference_node_id = Some ref_id,
                             node_output = Some out,
                             node_label = label node,
                             service = [(''table_id'', PInt tid)]\<rparr>]"
  using assms by (auto simp: to_orm_service_dict_def Let_def)

theorem row_action_service_dict_only_table_id_witness:
  "to_orm_service_dict (ex_update_row ''trigger'' ''1'' [(''field_1'', PStr ''Bram'')])
     = [(''table_id'', PInt 999)]
   \<and> calls (fst (create_nodes int 1 (new_workflow int 2 (ex_workflow []))
                   [ex_update_row ''trigger'' ''1'' [(''field_1'', PStr ''Bram'')]]
                   (after_trigger int 1 2 (ex_workflow []))))
     = calls (after_trigger int 1 2 (ex_workflow []))
       @ [CreateNode 1 \<lparr>orm_id = 2, node_type = ''update_row'', workflow_id = 0,
                         reference_node_id = Some 1, node_output = Some [],
                         node_label = ''Update Row Action'', service = [(''table_id'', PInt 999)]\<rparr>]"
proof -
  have c: "config (ex_update_row ''trigger'' ''1'' [(''field_1'', PStr ''Bram'')])
             = CreateRowAction 999 [(''field_1'', PStr ''Bram'')]
           \<or> config (ex_update_row ''trigger'' ''1'' [(''field_1'', PStr ''Bram'')])
             = UpdateRowAction 999 ''1'' [(''field_1'', PStr ''Bram'')]"
    by (simp add: ex_update_row_def)
  have r: "to_orm_reference_node (ex_update_row ''trigger'' ''1'' [(''field_1'', PStr ''Bram'')])
             (node_mapping (after_trigger int 1 2 (ex_workflow []))) = Inr (1, [])"
    by (simp add: to_orm_reference_node_def ex_update_row_def after_trigger_def ex_workflow_def
          ex_rows_trigger_def register_def new_trigger_def)
  show ?thesis
    using row_action_service_dict_only_table_id [OF c r, of int 1 "new_workflow int 2 (ex_workflow [])"]
    by (simp add: after_trigger_def new_workflow_def node_type_str_def ex_update_row_def
          del: create_nodes.simps)
qed

theorem row_action_service_dict_drops_values_counterexample:
  "to_orm_service_dict (ex_update_row ''trigger'' ''1'' [(''field_1'', PStr ''Bram'')])
     = [(''table_id'', PInt 999)]
   \<and> create_workflow int 1 2 (ex_workflow [ex_update_row ''trigger'' ''1'' [(''field_1'', PStr ''Bram'')]])
     = ([CreateWorkflow 1 \<lparr>wf_id = 0, wf_automation_id = 2, wf_name = ''Test Row Trigger Workflow''\<rparr>,
         CreateNode 1 \<lparr>orm_id = 1, node_type = ''rows_updated'', workflow_id = 0,
                        reference_node_id = None, node_output = None,
                        node_label = ''Rows Updated Trigger'', service = []\<rparr>,
         CreateNode 1 \<lparr>orm_id = 2, node_type = ''update_row'', workflow_id = 0,
                        reference_node_id = Some 1, node_output = Some [],
                        node_label = ''Update Row Action'', service = [(''table_id'', PInt 999)]\<rparr>],
        Inr \<lparr>wf_id = 0, wf_automation_id = 2, wf_name = ''Test Row Trigger Workflow''\<rparr>)"
  by (simp add: to_orm_service_dict_def ex_update_row_def ex_workflow_def ex_rows_trigger_def
        create_workflow_def run_workflow_def after_trigger_def new_workflow_def new_trigger_def
        register_def to_orm_reference_node_def trigger_to_orm_service_dict_def node_type_str_def
        Let_def)

text \<open>
  C4. When the \<open>previous_node_ref\<close> of node \<open>i\<close> of \<open>workflow.nodes\<close> is neither the trigger's
  ref nor the ref of a node before it in the list, \<open>create_workflow\<close> raises and the
  node-creation service is never called for node \<open>i\<close> or a later node: at most the workflow,
  the trigger and the \<open>i\<close> earlier nodes are created. When those \<open>i\<close> earlier nodes were all
  created, the exception is the \<open>ValueError\<close> that names the missing reference. A string
  ref never equals an ORM id, so the id keys of the mapping cannot satisfy the lookup; a
  reference to a node that comes later in the list is such a missing reference.
\<close>

theorem create_workflow_rejects_unknown_previous_ref:
  assumes "i < length (nodes workflow)"
      and "previous_node_ref (nodes workflow ! i) \<noteq> trigger_ref (trigger workflow)"
      and "\<forall>j<i. ref (nodes workflow ! j) \<noteq> previous_node_ref (nodes workflow ! i)"
      and "create_workflow ids user automation_id workflow = (trace, res)"
  shows "(\<exists>e. res = Inl e)
       \<and> length trace \<le> i + 2
       \<and> (length trace = i + 2 \<longrightarrow>
            res = Inl (ValueError (''Previous node ref '' @ quoted (previous_node_ref (nodes workflow ! i))
                                   @ '' not found in mapping'')))"
proof -
  let ?s0 = "after_trigger ids user automation_id workflow"
  let ?ns = "nodes workflow"
  let ?wf = "new_workflow ids automation_id workflow"
  let ?p = "previous_node_ref (?ns ! i)"
  let ?look = "\<lambda>k. (ref_ids (node_mapping ?s0) ++ map_of (rev (earlier_refs ids (length (calls ?s0)) ?ns k)))
                      (previous_node_ref (?ns ! k))"
  from assms(4) obtain s r where run: "run_workflow ids user automation_id workflow = (s, r)"
    and log: "trace = calls s"
    and res: "res = (case r of Some e \<Rightarrow> Inl e | None \<Rightarrow> Inr ?wf)"
    by (rule create_workflow_run)
  from run have "create_nodes ids user ?wf ?ns ?s0 = (s, r)"
    by (simp add: run_workflow_def)
  from create_nodes_trace [OF this] obtain k where k: "k \<le> length ?ns"
    and len: "length (calls s) = length (calls ?s0) + k"
    and ok: "r = None \<longrightarrow> k = length ?ns"
    and err: "\<forall>e. r = Some e \<longrightarrow> k < length ?ns
               \<and> (e = prev_error (?ns ! k) \<and> ?look k = None
                  \<or> e = branch_error (?ns ! k) \<and> ?look k \<noteq> None)"
    and made: "\<forall>i<k. \<exists>n. calls s ! (length (calls ?s0) + i) = CreateNode user n
               \<and> orm_id n = ids (length (calls ?s0) + i)
               \<and> node_type n = node_type_str (?ns ! i)
               \<and> workflow_id n = wf_id ?wf
               \<and> node_label n = label (?ns ! i)
               \<and> service n = to_orm_service_dict (?ns ! i)
               \<and> reference_node_id n = ?look i
               \<and> reference_node_id n \<noteq> None"
    by blast
  have l0: "length (calls ?s0) = 2"
    by (simp add: calls_after_trigger)
  have none: "?look i = None"
  proof -
    from assms(1) have "i \<le> length ?ns" by simp
    from fst_earlier_refs [OF this] assms(3)
    have "?p \<notin> fst ` set (earlier_refs ids (length (calls ?s0)) ?ns i)"
      by blast
    moreover from assms(2) have "ref_ids (node_mapping ?s0) ?p = None"
      by (simp add: ref_ids_after_trigger)
    ultimately show ?thesis
      by (simp only: latest_ref_None simp_thms)
  qed
  have ki: "k \<le> i"
  proof (rule ccontr)
    assume "\<not> k \<le> i"
    then have "i < k" by simp
    from made [rule_format, OF this] show False
    proof (elim exE conjE)
      fix n
      assume n1: "reference_node_id n = ?look i" and n2: "reference_node_id n \<noteq> None"
      from n1 none have "reference_node_id n = None"
        by (rule trans)
      with n2 show False
        by (rule notE)
    qed
  qed
  from ki assms(1) have "k \<noteq> length ?ns"
    by simp
  with ok obtain e where e: "r = Some e"
    by (cases r) simp_all
  have r1: "\<exists>e. res = Inl e"
    using e res by simp
  have r2: "length trace \<le> i + 2"
    using ki len l0 log by simp
  from err [rule_format, OF e]
  have d: "e = prev_error (?ns ! k) \<and> ?look k = None
           \<or> e = branch_error (?ns ! k) \<and> ?look k \<noteq> None"
    by (rule conjunct2)
  have r3: "res = Inl (ValueError (''Previous node ref '' @ quoted ?p @ '' not found in mapping''))"
    if "length trace = i + 2"
  proof -
    from that len l0 log have "k = i"
      by simp
    from d have "e = prev_error (?ns ! i) \<and> ?look i = None
                 \<or> e = branch_error (?ns ! i) \<and> ?look i \<noteq> None"
      unfolding \<open>k = i\<close> .
    then have "e = prev_error (?ns ! i)"
    proof (elim disjE conjE)
      assume "e = prev_error (?ns ! i)"
      then show ?thesis .
    next
      assume "?look i \<noteq> None"
      from this none show ?thesis
        by (rule notE)
    qed
    with e res show ?thesis
      by (simp add: prev_error_def)
  qed
  show ?thesis
  proof (intro conjI impI)
    show "\<exists>e. res = Inl e"
      by (rule r1)
    show "length trace \<le> i + 2"
      by (rule r2)
    assume "length trace = i + 2"
    then show "res = Inl (ValueError (''Previous node ref '' @ quoted ?p @ '' not found in mapping''))"
      by (rule r3)
  qed
qed

theorem create_workflow_rejects_unknown_previous_ref_witness:
  "0 < length (nodes ex_forward)
   \<and> previous_node_ref (nodes ex_forward ! 0) \<noteq> trigger_ref (trigger ex_forward)
   \<and> create_workflow int 1 2 ex_forward
        = ([CreateWorkflow 1 ex_chain_workflow, CreateNode 1 ex_chain_trigger],
           Inl (ValueError (''Previous node ref '' @ quoted ''r'' @ '' not found in mapping'')))
   \<and> length [CreateWorkflow 1 ex_chain_workflow, CreateNode 1 ex_chain_trigger] = 0 + 2
   \<and> ref (nodes ex_forward ! 1) = previous_node_ref (nodes ex_forward ! 0)"
proof -
  have h1: "0 < length (nodes ex_forward)"
    and h2: "previous_node_ref (nodes ex_forward ! 0) \<noteq> trigger_ref (trigger ex_forward)"
    and h3: "\<forall>j<0. ref (nodes ex_forward ! j) \<noteq> previous_node_ref (nodes ex_forward ! 0)"
    and fw: "ref (nodes ex_forward ! 1) = previous_node_ref (nodes ex_forward ! 0)"
    and p: "previous_node_ref (nodes ex_forward ! 0) = ''r''"
    by (simp_all add: ex_forward_def ex_workflow_def ex_after_def ex_router_def ex_rows_trigger_def)
  obtain trace res where run: "create_workflow int 1 2 ex_forward = (trace, res)"
    by (cases "create_workflow int 1 2 ex_forward")
  have t: "trace = [CreateWorkflow 1 ex_chain_workflow, CreateNode 1 ex_chain_trigger]"
    using run
    by (simp add: ex_forward_def ex_workflow_def ex_after_def ex_router_def ex_rows_trigger_def
          ex_chain_workflow_def ex_chain_trigger_def
          create_workflow_def run_workflow_def after_trigger_def new_workflow_def new_trigger_def
          register_def to_orm_reference_node_def trigger_to_orm_service_dict_def)
  from create_workflow_rejects_unknown_previous_ref [OF h1 h2 h3 run] t p
  have "res = Inl (ValueError (''Previous node ref '' @ quoted ''r'' @ '' not found in mapping''))"
    by simp
  with run t h1 h2 h3 fw show ?thesis
    by simp
qed

text \<open>
  C9. After any number \<open>j\<close> of rounds of the loop of \<open>create_workflow\<close> (or at the raise, when
  one of these rounds raises), with \<open>k\<close> list nodes created: the keys of \<open>node_mapping\<close> are
  exactly the refs and the ORM ids of the trigger and the \<open>k\<close> created nodes; the id key of
  every created node holds the pair of that ORM node and its schema node; the ref key
  holds the pair of the latest created node with that ref, so a node whose ref repeats an
  earlier one replaces the earlier entry. The only exceptions of the loop are the two of
  \<open>to_orm_reference_node\<close>, and a round raises exactly when its node does not resolve:
  every created node resolves, and when fewer than \<open>j\<close> nodes are created the loop has
  raised at a node that does not resolve. Whether a node resolves does not depend on the
  node's own ref, so a repeated ref is never rejected. The ORM ids are distinct
  primary keys (\<open>inj_on ids {1..}\<close>; call 0 creates the workflow, in a table of its own).
\<close>

theorem node_mapping_registers_created_nodes:
  assumes "inj_on ids {1..}"
      and "create_nodes ids user (new_workflow ids automation_id workflow)
             (take j (nodes workflow)) (after_trigger ids user automation_id workflow) = (s, r)"
  shows "\<exists>k. k \<le> j \<and> k \<le> length (nodes workflow)
           \<and> (r = None \<longrightarrow> k = min j (length (nodes workflow)))
           \<and> (\<forall>e. r = Some e \<longrightarrow>
                 e = prev_error (nodes workflow ! k) \<or> e = branch_error (nodes workflow ! k))
           \<and> length (created_nodes (calls s)) = Suc k
           \<and> (\<forall>i<k. resolves workflow i)
           \<and> (k < min j (length (nodes workflow)) \<longrightarrow> r \<noteq> None \<and> \<not> resolves workflow k)
           \<and> (\<forall>i<length (nodes workflow). \<forall>r'.
                 resolves (workflow\<lparr>nodes := (nodes workflow)[i := (nodes workflow ! i)\<lparr>ref := r'\<rparr>]\<rparr>) i
                   = resolves workflow i)
           \<and> (let reg = zip (created_nodes (calls s))
                              (TriggerSchema (trigger workflow) # map NodeSchema (take k (nodes workflow)))
               in dom (node_mapping s)
                    = (\<lambda>(orm_node, node). RefKey (schema_ref node)) ` set reg
                      \<union> (\<lambda>(orm_node, node). IdKey (orm_id orm_node)) ` set reg
                  \<and> (\<forall>c<Suc k. node_mapping s (IdKey (orm_id (fst (reg ! c)))) = Some (reg ! c))
                  \<and> (\<forall>c<Suc k.
                        (\<forall>c'<Suc k. c < c' \<longrightarrow>
                           schema_ref (snd (reg ! c')) \<noteq> schema_ref (snd (reg ! c)))
                        \<longrightarrow> node_mapping s (RefKey (schema_ref (snd (reg ! c)))) = Some (reg ! c)))"
proof -
  let ?s0 = "after_trigger ids user automation_id workflow"
  let ?ns = "take j (nodes workflow)"
  let ?t = "(new_trigger ids workflow, TriggerSchema (trigger workflow))"
  have m0: "node_mapping ?s0 = registered_mapping [?t]"
    by (simp add: after_trigger_def registered_mapping_def)
  have c0: "created_nodes (calls ?s0) = map fst [?t]"
    by (simp add: after_trigger_def)
  have l0: "length (calls ?s0) = 2"
    by (simp add: after_trigger_def)
  from create_nodes_registered [OF assms(2) m0 c0] obtain k new where k: "k \<le> length ?ns"
    and new: "length new = k"
    and ok: "r = None \<longrightarrow> k = length ?ns"
    and m: "node_mapping s = registered_mapping ([?t] @ zip new (map NodeSchema (take k ?ns)))"
    and c: "created_nodes (calls s) = map fst [?t] @ new"
    and i: "map orm_id new = map ids [length (calls ?s0)..<length (calls ?s0) + k]"
    and err: "\<forall>e. r = Some e \<longrightarrow>
                 k < length ?ns \<and> (e = prev_error (?ns ! k) \<or> e = branch_error (?ns ! k))"
    by blast
  from k have kj: "k \<le> j" and kn: "k \<le> length (nodes workflow)"
    by simp_all
  define reg where "reg = zip (created_nodes (calls s))
      (TriggerSchema (trigger workflow) # map NodeSchema (take k (nodes workflow)))"
  have tk: "take k ?ns = take k (nodes workflow)"
    using kj by (simp add: min_def)
  have reg: "reg = [?t] @ zip new (map NodeSchema (take k ?ns))"
    unfolding reg_def c tk by simp
  have lr: "length reg = Suc k"
    unfolding reg tk using new kn by simp
  have lc: "length (created_nodes (calls s)) = Suc k"
    unfolding c using new by simp
  have ms: "node_mapping s = registered_mapping reg"
    unfolding reg by (rule m)
  have "map (\<lambda>(orm_node, node). orm_id orm_node) reg = map orm_id (map fst reg)"
    by (simp add: case_prod_beta comp_def)
  also have "map fst reg = new_trigger ids workflow # new"
    unfolding reg tk using new kn by simp
  also have "map orm_id (new_trigger ids workflow # new) = ids 1 # map ids [2..<2 + k]"
    using i unfolding l0 by (simp add: new_trigger_def)
  also have "ids 1 # map ids [2..<2 + k] = map ids (1 # [2..<2 + k])"
    by simp
  also have "1 # [2..<2 + k] = [1..<2 + k]"
  proof -
    have "[1..<2 + k] = 1 # [Suc 1..<2 + k]"
      by (rule upt_conv_Cons) simp
    then show ?thesis
      by (simp only: Suc_1)
  qed
  finally have ids: "map (\<lambda>(orm_node, node). orm_id orm_node) reg = map ids [1..<2 + k]" .
  have "inj_on ids (set [1..<2 + k])"
    by (rule inj_on_subset [OF assms(1)]) auto
  then have d: "distinct (map (\<lambda>(orm_node, node). orm_id orm_node) reg)"
    unfolding ids by (simp add: distinct_map)
  have p1: "dom (node_mapping s)
              = (\<lambda>(orm_node, node). RefKey (schema_ref node)) ` set reg
                \<union> (\<lambda>(orm_node, node). IdKey (orm_id orm_node)) ` set reg"
    unfolding ms by (rule dom_registered_mapping)
  have p2: "\<forall>c<Suc k. node_mapping s (IdKey (orm_id (fst (reg ! c)))) = Some (reg ! c)"
    unfolding ms using registered_mapping_id [OF d] lr by simp
  have p3: "\<forall>c<Suc k.
              (\<forall>c'<Suc k. c < c' \<longrightarrow> schema_ref (snd (reg ! c')) \<noteq> schema_ref (snd (reg ! c)))
              \<longrightarrow> node_mapping s (RefKey (schema_ref (snd (reg ! c)))) = Some (reg ! c)"
    unfolding ms using registered_mapping_ref [of _ reg] lr by simp
  have p4: "r = None \<longrightarrow> k = min j (length (nodes workflow))"
    using ok by (simp add: min.commute)
  have p5: "\<forall>e. r = Some e \<longrightarrow>
              e = prev_error (nodes workflow ! k) \<or> e = branch_error (nodes workflow ! k)"
  proof (intro allI impI)
    fix e assume "r = Some e"
    with err have kl: "k < length ?ns \<and> (e = prev_error (?ns ! k) \<or> e = branch_error (?ns ! k))"
      by blast
    then have e: "e = prev_error (?ns ! k) \<or> e = branch_error (?ns ! k)"
      by (rule conjunct2)
    from kl have "k < j"
      by simp
    then have "?ns ! k = nodes workflow ! k"
      by simp
    with e show "e = prev_error (nodes workflow ! k) \<or> e = branch_error (nodes workflow ! k)"
      by simp
  qed
  from create_nodes_progress [OF assms(2)] obtain k' where
        cre': "length (created_nodes (calls s)) = length (created_nodes (calls ?s0)) + k'"
    and res': "\<forall>i<k'. resolves_from (ref_schemas (node_mapping ?s0)) ?ns i"
    and stop': "k' < length ?ns \<longrightarrow>
                  r \<noteq> None \<and> \<not> resolves_from (ref_schemas (node_mapping ?s0)) ?ns k'"
    by blast
  have kk: "k' = k"
    using cre' lc c0 by simp
  have p6: "\<forall>i<k. resolves workflow i"
  proof (intro allI impI)
    fix i assume i: "i < k"
    with res' kk have "resolves_from (ref_schemas (node_mapping ?s0)) ?ns i"
      by simp
    moreover from i kj have "i < j"
      by simp
    ultimately show "resolves workflow i"
      unfolding resolves_def ref_schemas_after_trigger by (simp add: resolves_from_take)
  qed
  have p7: "k < min j (length (nodes workflow)) \<longrightarrow> r \<noteq> None \<and> \<not> resolves workflow k"
  proof
    assume a: "k < min j (length (nodes workflow))"
    then have kl: "k < length ?ns" and kj': "k < j"
      by simp_all
    from stop' kk kl have "r \<noteq> None \<and> \<not> resolves_from (ref_schemas (node_mapping ?s0)) ?ns k"
      by simp
    then show "r \<noteq> None \<and> \<not> resolves workflow k"
      unfolding resolves_def ref_schemas_after_trigger using kj' by (simp add: resolves_from_take)
  qed
  have p8: "\<forall>i<length (nodes workflow). \<forall>r'.
              resolves (workflow\<lparr>nodes := (nodes workflow)[i := (nodes workflow ! i)\<lparr>ref := r'\<rparr>]\<rparr>) i
                = resolves workflow i"
    by (simp add: resolves_own_ref)
  show ?thesis
    using kj kn p4 p5 lc p6 p7 p8 p1 p2 p3
    unfolding reg_def Let_def by (intro exI [of _ k] conjI) assumption+
qed

theorem node_mapping_registers_created_nodes_witness:
  "inj_on int {1..}
   \<and> snd ex_chain_run = None
   \<and> map ref (nodes ex_chain) = [''action'', ''action'']
   \<and> created_nodes (calls (fst ex_chain_run)) = [ex_chain_trigger, ex_chain_node 2 1, ex_chain_node 3 2]
   \<and> node_mapping (fst ex_chain_run) (IdKey 2)
       = Some (ex_chain_node 2 1, NodeSchema (ex_update_row ''trigger'' ''1'' []))
   \<and> node_mapping (fst ex_chain_run) (RefKey ''action'')
       = Some (ex_chain_node 3 2, NodeSchema (ex_update_row ''action'' ''2'' []))
   \<and> (\<exists>k. k \<le> 2 \<and> k \<le> length (nodes ex_chain)
           \<and> (snd ex_chain_run = None \<longrightarrow> k = min 2 (length (nodes ex_chain)))
           \<and> (\<forall>e. snd ex_chain_run = Some e \<longrightarrow>
                 e = prev_error (nodes ex_chain ! k) \<or> e = branch_error (nodes ex_chain ! k))
           \<and> length (created_nodes (calls (fst ex_chain_run))) = Suc k
           \<and> (\<forall>i<k. resolves ex_chain i)
           \<and> (k < min 2 (length (nodes ex_chain)) \<longrightarrow> snd ex_chain_run \<noteq> None \<and> \<not> resolves ex_chain k)
           \<and> (\<forall>i<length (nodes ex_chain). \<forall>r'.
                 resolves (ex_chain\<lparr>nodes := (nodes ex_chain)[i := (nodes ex_chain ! i)\<lparr>ref := r'\<rparr>]\<rparr>) i
                   = resolves ex_chain i)
           \<and> (let reg = zip (created_nodes (calls (fst ex_chain_run)))
                              (TriggerSchema (trigger ex_chain) # map NodeSchema (take k (nodes ex_chain)))
               in dom (node_mapping (fst ex_chain_run))
                    = (\<lambda>(orm_node, node). RefKey (schema_ref node)) ` set reg
                      \<union> (\<lambda>(orm_node, node). IdKey (orm_id orm_node)) ` set reg
                  \<and> (\<forall>c<Suc k. node_mapping (fst ex_chain_run) (IdKey (orm_id (fst (reg ! c)))) = Some (reg ! c))
                  \<and> (\<forall>c<Suc k.
                        (\<forall>c'<Suc k. c < c' \<longrightarrow>
                           schema_ref (snd (reg ! c')) \<noteq> schema_ref (snd (reg ! c)))
                        \<longrightarrow> node_mapping (fst ex_chain_run) (RefKey (schema_ref (snd (reg ! c)))) = Some (reg ! c))))"
proof -
  have h1: "inj_on int {1..}"
    by (simp add: inj_on_def)
  have h2: "create_nodes int 1 (new_workflow int 2 ex_chain) (take 2 (nodes ex_chain))
              (after_trigger int 1 2 ex_chain) = (fst ex_chain_run, snd ex_chain_run)"
    by (simp add: ex_chain_run_def)
  have run: "ex_chain_run =
     (\<lparr>node_mapping =
         [RefKey ''trigger'' \<mapsto> (ex_chain_trigger, TriggerSchema ex_rows_trigger),
          IdKey 1 \<mapsto> (ex_chain_trigger, TriggerSchema ex_rows_trigger),
          RefKey ''action'' \<mapsto> (ex_chain_node 2 1, NodeSchema (ex_update_row ''trigger'' ''1'' [])),
          IdKey 2 \<mapsto> (ex_chain_node 2 1, NodeSchema (ex_update_row ''trigger'' ''1'' [])),
          RefKey ''action'' \<mapsto> (ex_chain_node 3 2, NodeSchema (ex_update_row ''action'' ''2'' [])),
          IdKey 3 \<mapsto> (ex_chain_node 3 2, NodeSchema (ex_update_row ''action'' ''2'' []))],
       calls = ex_chain_calls\<rparr>, None)"
    by (simp add: ex_chain_run_def ex_chain_def ex_chain_calls_def ex_chain_workflow_def
          ex_chain_trigger_def ex_chain_node_def ex_update_row_def ex_workflow_def
          ex_rows_trigger_def after_trigger_def new_workflow_def new_trigger_def
          register_def to_orm_reference_node_def trigger_to_orm_service_dict_def
          to_orm_service_dict_def node_type_str_def Let_def)
  have a: "snd ex_chain_run = None"
    and b: "node_mapping (fst ex_chain_run) (IdKey 2)
       = Some (ex_chain_node 2 1, NodeSchema (ex_update_row ''trigger'' ''1'' []))"
    and c: "node_mapping (fst ex_chain_run) (RefKey ''action'')
       = Some (ex_chain_node 3 2, NodeSchema (ex_update_row ''action'' ''2'' []))"
    unfolding run by simp_all
  have d: "map ref (nodes ex_chain) = [''action'', ''action'']"
    by (simp add: ex_chain_def ex_workflow_def ex_update_row_def)
  have e: "created_nodes (calls (fst ex_chain_run)) = [ex_chain_trigger, ex_chain_node 2 1, ex_chain_node 3 2]"
    unfolding run by (simp add: ex_chain_calls_def)
  note t = node_mapping_registers_created_nodes [OF h1 h2]
  show ?thesis
    by (intro conjI h1 a d e b c t)
qed

text \<open>
  Claim C5. When the backend succeeds for every requested row, \<open>generate_ai_values_for_rows\<close>
  returns normally; every requested row gets, in the AI field's column, the backend's output
  for the prompt formula evaluated against that row (\<open>with_ai_value\<close>), the other rows stay
  as they are; exactly one signal is sent, \<open>rows_updated\<close>, with the updated rows and
  \<open>updated_field_ids\<close> the set of the field's id alone; and the backend is prompted once for
  each requested row. The rows of a table have distinct ids. In the example the second row
  has no value for the two fields the prompt refers to, and both references give the empty
  text.
\<close>

theorem generate_ai_values_for_rows_stores_and_signals_once:
  assumes "distinct (map row_id (table_rows st))"
      and "\<forall>row \<in> set (requested_rows row_ids st).
             \<exists>v. ai (ai_temperature field) (resolve_formula (ai_prompt field) row) = Inr v"
  shows "generate_ai_values_for_rows ai user_id field row_ids st =
           (st\<lparr>table_rows := map (\<lambda>row. if row_id row \<in> set row_ids
                                         then with_ai_value ai field row
                                         else row) (table_rows st),
               sent := sent st @ [signal_rows_updated user_id
                                    (map (with_ai_value ai field) (requested_rows row_ids st))
                                    {ai_field_id field}],
               prompts := prompts st @ map (resolve_formula (ai_prompt field)) (requested_rows row_ids st)\<rparr>,
            Inr ())"
proof -
  have "generate_values ai field (requested_rows row_ids st)
      = (map (ai_message field) (requested_rows row_ids st),
         Inr (map (with_ai_value ai field) (requested_rows row_ids st)))"
    by (rule generate_values_all) (use assms(2) in \<open>simp add: ai_message_def\<close>)
  moreover have "store_rows (map (with_ai_value ai field) (requested_rows row_ids st)) (table_rows st)
      = map (\<lambda>row. if row_id row \<in> set row_ids then with_ai_value ai field row else row) (table_rows st)"
    unfolding requested_rows_def
    by (rule store_rows_updated [OF assms(1) row_id_with_ai_value])
  moreover have "ai_message field = resolve_formula (ai_prompt field)"
    by (rule ext) (simp add: ai_message_def)
  ultimately show ?thesis
    by (simp add: generate_ai_values_for_rows_def requested_rows_def [symmetric] Let_def)
qed

theorem generate_ai_values_for_rows_stores_and_signals_once_witness:
  "snd (generate_ai_values_for_rows ex_generative_ai 7 ex_ai_field [1, 2] ex_table_state) = Inr ()
   \<and> map (\<lambda>row. cells row 3)
         (table_rows (fst (generate_ai_values_for_rows ex_generative_ai 7 ex_ai_field [1, 2] ex_table_state)))
       = [Some ''Generated with temperature None: Hello Bram Wiepjes'',
          Some ''Generated with temperature None: Hello  '',
          None]
   \<and> sent (fst (generate_ai_values_for_rows ex_generative_ai 7 ex_ai_field [1, 2] ex_table_state))
       = [signal_rows_updated 7
            [with_ai_value ex_generative_ai ex_ai_field ex_row_bram,
             with_ai_value ex_generative_ai ex_ai_field ex_row_blank] {3}]
   \<and> prompts (fst (generate_ai_values_for_rows ex_generative_ai 7 ex_ai_field [1, 2] ex_table_state))
       = [''Hello Bram Wiepjes'', ''Hello  '']"
proof -
  have d: "distinct (map row_id (table_rows ex_table_state))"
    by (simp add: ex_table_state_def ex_row_bram_def ex_row_blank_def ex_row_other_def)
  have ok: "\<forall>row \<in> set (requested_rows [1, 2] ex_table_state).
      \<exists>v. ex_generative_ai (ai_temperature ex_ai_field) (resolve_formula (ai_prompt ex_ai_field) row) = Inr v"
    by (simp add: ex_generative_ai_def)
  have r: "requested_rows [1, 2] ex_table_state = [ex_row_bram, ex_row_blank]"
    by (simp add: requested_rows_def ex_table_state_def ex_row_bram_def ex_row_blank_def ex_row_other_def)
  show ?thesis
    unfolding generate_ai_values_for_rows_stores_and_signals_once
      [of ex_table_state "[1, 2]" ex_generative_ai ex_ai_field 7, OF d ok] r
    by (simp add: ex_table_state_def ex_row_bram_def ex_row_blank_def ex_row_other_def
        ex_ai_field_def ex_generative_ai_def with_ai_value_def ai_value_def ai_message_def)
qed

text \<open>
  Claim C6. When the backend raises a prompt error at one of the requested rows, having
  succeeded for the rows before it, \<open>generate_ai_values_for_rows\<close> raises that error again;
  exactly one signal is sent, \<open>rows_ai_values_generation_error\<close>, with the requested rows,
  the field and the backend's message, and no \<open>rows_updated\<close>; the rows of the table are
  unchanged; and the failing prompt was sent once, no prompt after it.
\<close>

theorem generate_ai_values_for_rows_prompt_error:
  assumes "i < length (requested_rows row_ids st)"
      and "ai (ai_temperature field) (resolve_formula (ai_prompt field) (requested_rows row_ids st ! i)) = Inl msg"
      and "\<forall>j<i. \<exists>v. ai (ai_temperature field)
                        (resolve_formula (ai_prompt field) (requested_rows row_ids st ! j)) = Inr v"
  shows "generate_ai_values_for_rows ai user_id field row_ids st =
           (st\<lparr>sent := sent st @ [signal_rows_ai_values_generation_error user_id
                                    (requested_rows row_ids st) (ai_field_id field) msg],
               prompts := prompts st @ map (resolve_formula (ai_prompt field))
                                         (take (Suc i) (requested_rows row_ids st))\<rparr>,
            Inl (GenerativeAIPromptError msg))"
proof -
  have "generate_values ai field (requested_rows row_ids st)
      = (map (ai_message field) (take (Suc i) (requested_rows row_ids st)), Inl msg)"
    by (rule generate_values_first_error) (use assms in \<open>simp_all add: ai_message_def\<close>)
  moreover have "ai_message field = resolve_formula (ai_prompt field)"
    by (rule ext) (simp add: ai_message_def)
  ultimately show ?thesis
    by (simp add: generate_ai_values_for_rows_def requested_rows_def [symmetric] Let_def)
qed

theorem generate_ai_values_for_rows_prompt_error_witness:
  "generate_ai_values_for_rows ex_failing_ai 7 ex_ai_field [1, 2] ex_table_state =
     (ex_table_state\<lparr>sent := [signal_rows_ai_values_generation_error 7 [ex_row_bram, ex_row_blank] 3 ''Test error''],
                      prompts := [''Hello Bram Wiepjes'']\<rparr>,
      Inl (GenerativeAIPromptError ''Test error''))"
proof -
  have r: "requested_rows [1, 2] ex_table_state = [ex_row_bram, ex_row_blank]"
    by (simp add: requested_rows_def ex_table_state_def ex_row_bram_def ex_row_blank_def ex_row_other_def)
  have i: "0 < length (requested_rows [1, 2] ex_table_state)"
    by (simp add: r)
  have e: "ex_failing_ai (ai_temperature ex_ai_field)
      (resolve_formula (ai_prompt ex_ai_field) (requested_rows [1, 2] ex_table_state ! 0)) = Inl ''Test error''"
    by (simp add: ex_failing_ai_def)
  have b: "\<forall>j<0. \<exists>v. ex_failing_ai (ai_temperature ex_ai_field)
      (resolve_formula (ai_prompt ex_ai_field) (requested_rows [1, 2] ex_table_state ! j)) = Inr v"
    by simp
  show ?thesis
    unfolding generate_ai_values_for_rows_prompt_error
      [of 0 "[1, 2]" ex_table_state ex_failing_ai ex_ai_field "''Test error''" 7, OF i e b] r
    by (simp add: ex_table_state_def ex_ai_field_def ex_row_bram_def)
qed

text \<open>
  Claim C7. When rows are created in a table with an AI field whose \<open>ai_auto_update\<close> is
  set, the calls queued for that field are exactly one call with the arguments (auto-update
  user id, field id, created row ids) when the auto-update user exists and has an active
  premium license, and the field stays as it is; otherwise no call is queued for the field
  and its \<open>ai_auto_update\<close> is saved as \<open>False\<close>. The fields of a table have distinct ids.
\<close>

theorem rows_created_enqueues_for_licensed_auto_update_user:
  assumes "i < length (ai_fields st)"
      and "ai_auto_update (ai_fields st ! i)"
      and "distinct (map ai_field_id (ai_fields st))"
  shows "\<exists>new. delayed (rows_created_auto_update row_ids st) = delayed st @ new
           \<and> filter (\<lambda>t. fst (snd t) = ai_field_id (ai_fields st ! i)) new
               = (if auto_update_user_licensed (users st) (ai_fields st ! i)
                  then [(the (ai_auto_update_user_id (ai_fields st ! i)), ai_field_id (ai_fields st ! i), row_ids)]
                  else [])
           \<and> ai_fields (rows_created_auto_update row_ids st) ! i
               = (ai_fields st ! i)\<lparr>ai_auto_update := auto_update_user_licensed (users st) (ai_fields st ! i)\<rparr>
           \<and> users (rows_created_auto_update row_ids st) = users st"
proof -
  let ?field = "ai_fields st ! i"
  let ?new = "concat (map (\<lambda>f. snd (auto_update_field (users st) row_ids f)) (ai_fields st))"
  have m: "?field \<in> set (ai_fields st)"
    using assms(1) by simp
  have f: "filter (\<lambda>t. fst (snd t) = ai_field_id ?field) ?new
      = (if auto_update_user_licensed (users st) ?field
         then [(the (ai_auto_update_user_id ?field), ai_field_id ?field, row_ids)] else [])"
    unfolding tasks_of_field [OF assms(3) m]
    using assms(2) by (simp add: auto_update_field_tasks)
  have s: "ai_fields (rows_created_auto_update row_ids st) ! i
      = ?field\<lparr>ai_auto_update := auto_update_user_licensed (users st) ?field\<rparr>"
    using assms(1,2) by (simp add: rows_created_auto_update_def auto_update_field_saved)
  have "delayed (rows_created_auto_update row_ids st) = delayed st @ ?new"
    by (simp add: rows_created_auto_update_def)
  moreover have "users (rows_created_auto_update row_ids st) = users st"
    by (simp add: rows_created_auto_update_def)
  ultimately show ?thesis
    using f s by blast
qed

theorem rows_created_enqueues_for_licensed_auto_update_user_witness:
  "delayed (rows_created_auto_update [11, 12] (ex_auto_update_state [7 \<mapsto> True] ex_ai_field)) = [(7, 3, [11, 12])]
   \<and> map ai_auto_update (ai_fields (rows_created_auto_update [11, 12] (ex_auto_update_state [7 \<mapsto> True] ex_ai_field)))
       = [True]
   \<and> delayed (rows_created_auto_update [11, 12] (ex_auto_update_state [7 \<mapsto> False] ex_ai_field)) = []
   \<and> map ai_auto_update (ai_fields (rows_created_auto_update [11, 12] (ex_auto_update_state [7 \<mapsto> False] ex_ai_field)))
       = [False]
   \<and> delayed (rows_created_auto_update [11, 12] (ex_auto_update_state Map.empty ex_ai_field)) = []
   \<and> map ai_auto_update (ai_fields (rows_created_auto_update [11, 12] (ex_auto_update_state Map.empty ex_ai_field)))
       = [False]"
proof -
  have a: "0 < length (ai_fields (ex_auto_update_state us ex_ai_field))"
    and b: "ai_auto_update (ai_fields (ex_auto_update_state us ex_ai_field) ! 0)"
    and c: "distinct (map ai_field_id (ai_fields (ex_auto_update_state us ex_ai_field)))" for us
    by (simp_all add: ex_auto_update_state_def ex_ai_field_def)
  show ?thesis
    using rows_created_enqueues_for_licensed_auto_update_user
            [of 0 "ex_auto_update_state [7 \<mapsto> True] ex_ai_field" "[11, 12]", OF a b c]
          rows_created_enqueues_for_licensed_auto_update_user
            [of 0 "ex_auto_update_state [7 \<mapsto> False] ex_ai_field" "[11, 12]", OF a b c]
          rows_created_enqueues_for_licensed_auto_update_user
            [of 0 "ex_auto_update_state Map.empty ex_ai_field" "[11, 12]", OF a b c]
    by (simp add: rows_created_auto_update_def ex_auto_update_state_def ex_ai_field_def
        auto_update_field_def auto_update_user_licensed_def)
qed

end
